theory Spec2Isabelle
  imports Main "HOL-Library.Char_ord" "HOL-Library.List_Lexorder"
    "HOL-Library.Product_Lexorder"
begin

section \<open>Strings and integers of the program\<close>

text \<open>
  A JavaScript string is a sequence of UTF-16 code units. It is modelled as a HOL
  \<^typ>\<open>string\<close>, one \<^typ>\<open>char\<close> per code unit, which covers the strings whose code
  units lie below 256 (ASCII and Latin-1). \<open>length\<close> is the program's \<open>.length\<close> and
  \<open>take n\<close> is \<open>slice(0, n)\<close>. The only character of the program's own texts
  outside that range is the em dash of the output lines, see \<open>emDash\<close>.
\<close>

definition dq :: char where
  "dq = CHR 0x22"

text \<open>\<open>s.replace(/p/g, r)\<close> for a pattern \<open>p\<close> of one literal character and a
  replacement \<open>r\<close> without \<open>$\<close>: every occurrence, left to right.\<close>

primrec replaceAllChar :: "char \<Rightarrow> string \<Rightarrow> string \<Rightarrow> string" where
  "replaceAllChar p r [] = []"
| "replaceAllChar p r (c # cs) =
     (if c = p then r @ replaceAllChar p r cs else c # replaceAllChar p r cs)"

text \<open>\<open>s.replace(p, r)\<close> for a string pattern of one character: the first occurrence only.\<close>

primrec replaceFirstChar :: "char \<Rightarrow> string \<Rightarrow> string \<Rightarrow> string" where
  "replaceFirstChar p r [] = []"
| "replaceFirstChar p r (c # cs) = (if c = p then r @ cs else c # replaceFirstChar p r cs)"

text \<open>\<open>toLowerCase()\<close> on code units below 256: the letters A-Z and the capital
  letters of Latin-1 (U+00C0-U+00DE without the multiplication sign U+00D7) move up by 32.\<close>

definition lowerChar :: "char \<Rightarrow> char" where
  "lowerChar c =
     (let n = (of_char c :: nat)
      in if (65 \<le> n \<and> n \<le> 90) \<or> (192 \<le> n \<and> n \<le> 214) \<or> (216 \<le> n \<and> n \<le> 222)
         then char_of (n + 32) else c)"

definition isUpper :: "char \<Rightarrow> bool" where
  "isUpper c = (65 \<le> (of_char c :: nat) \<and> (of_char c :: nat) \<le> 90)"

definition toLowerCase :: "string \<Rightarrow> string" where
  "toLowerCase s = map lowerChar s"

definition padEnd :: "nat \<Rightarrow> string \<Rightarrow> string" where
  "padEnd n s = s @ replicate (n - length s) CHR '' ''"

definition padStart0 :: "nat \<Rightarrow> string \<Rightarrow> string" where
  "padStart0 n s = replicate (n - length s) CHR ''0'' @ s"

definition startsWith :: "string \<Rightarrow> string \<Rightarrow> bool" where
  "startsWith p s = (take (length p) s = p)"

definition isDigit :: "char \<Rightarrow> bool" where
  "isDigit c = (48 \<le> (of_char c :: nat) \<and> (of_char c :: nat) \<le> 57)"

definition digitChar :: "nat \<Rightarrow> char" where
  "digitChar n = char_of (48 + n)"

text \<open>Decimal text of a natural number, and \<open>toString()\<close> of a bigint or of an integral
  number: a minus sign before the digits of a negative value.\<close>

fun natToString :: "nat \<Rightarrow> string" where
  "natToString n =
     (if n < 10 then [digitChar n] else natToString (n div 10) @ [digitChar (n mod 10)])"

declare natToString.simps [simp del]

definition intToString :: "int \<Rightarrow> string" where
  "intToString i = (if i < 0 then CHR ''-'' # natToString (nat (- i)) else natToString (nat i))"

text \<open>Bigint \<open>/\<close> rounds towards zero and \<open>%\<close> takes the sign of the dividend. Both throw
  on a zero divisor; the program divides by a divisor it has tested, or by a literal.\<close>

definition bigintDiv :: "int \<Rightarrow> int \<Rightarrow> int" where
  "bigintDiv a b = sgn a * sgn b * (\<bar>a\<bar> div \<bar>b\<bar>)"

definition bigintRem :: "int \<Rightarrow> int \<Rightarrow> int" where
  "bigintRem a b = a - bigintDiv a b * b"

text \<open>A value that the program types \<open>string | null | undefined\<close> (an optional field).\<close>

datatype optstr = Undefined | Null | Str string

text \<open>The text a template literal gives for such a value.\<close>

fun templ :: "optstr \<Rightarrow> string" where
  "templ Undefined = ''undefined''"
| "templ Null = ''null''"
| "templ (Str s) = s"

section \<open>Identifier quoter\<close>

text \<open>listTables.ts 25-27 and listTables.tsx 43-45 (the two copies are the same).\<close>

definition quoteIdent :: "string \<Rightarrow> string" where
  "quoteIdent identifier = [dq] @ replaceAllChar dq [dq, dq] identifier @ [dq]"

text \<open>The specification's wording of the same: every embedded quote doubled, ...\<close>

definition doubleQuotes :: "string \<Rightarrow> string" where
  "doubleQuotes s = concat (map (\<lambda>c. if c = dq then [dq, dq] else [c]) s)"

text \<open>... and how a reader of SQL takes a quoted identifier apart again: an opening
  quote, then characters, where two quotes stand for one and a single quote closes,
  with nothing after it.\<close>

fun unquoteBody :: "string \<Rightarrow> string option" where
  "unquoteBody [] = None"
| "unquoteBody [c] = (if c = dq then Some [] else None)"
| "unquoteBody (c # d # cs) =
     (if c = dq then (if d = dq then map_option ((#) dq) (unquoteBody cs) else None)
      else map_option ((#) c) (unquoteBody (d # cs)))"

definition unquoteIdent :: "string \<Rightarrow> string option" where
  "unquoteIdent q = (case q of [] \<Rightarrow> None | c # cs \<Rightarrow> if c = dq then unquoteBody cs else None)"

section \<open>Percentages\<close>

text \<open>listTables.tsx 51-57.\<close>

definition formatPercentOneDecimal :: "int \<Rightarrow> int \<Rightarrow> string" where
  "formatPercentOneDecimal n d =
     (if d = 0 then ''0.0%''
      else let permille = bigintDiv (n * 1000 + bigintDiv d 2) d;
               whole = bigintDiv permille 10;
               tenth = bigintRem permille 10
           in intToString whole @ ''.'' @ intToString tenth @ ''%'')"

text \<open>
  \<open>BigInt(s)\<close> of a string (StringToBigInt of the language): white space is trimmed; the
  empty string is zero; otherwise decimal digits with an optional sign, or binary,
  octal or hexadecimal digits after \<open>0b\<close>, \<open>0o\<close>, \<open>0x\<close> (no sign). Anything else is a
  SyntaxError, here \<open>None\<close>. Below code unit 256 the white space and line terminators are
  TAB, LF, VT, FF, CR, SP and NBSP.
\<close>

definition isStrWhiteSpace :: "char \<Rightarrow> bool" where
  "isStrWhiteSpace c = ((of_char c :: nat) \<in> {9, 10, 11, 12, 13, 32, 160})"

definition trimString :: "string \<Rightarrow> string" where
  "trimString s = rev (dropWhile isStrWhiteSpace (rev (dropWhile isStrWhiteSpace s)))"

definition digitValue :: "nat \<Rightarrow> char \<Rightarrow> nat option" where
  "digitValue radix c =
     (let n = (of_char c :: nat);
          v = (if 48 \<le> n \<and> n \<le> 57 then n - 48
               else if 97 \<le> n \<and> n \<le> 122 then n - 87
               else if 65 \<le> n \<and> n \<le> 90 then n - 55
               else radix)
      in if v < radix then Some v else None)"

fun digitsValue :: "nat \<Rightarrow> nat \<Rightarrow> string \<Rightarrow> nat option" where
  "digitsValue radix acc [] = Some acc"
| "digitsValue radix acc (c # cs) =
     (case digitValue radix c of
        None \<Rightarrow> None
      | Some v \<Rightarrow> digitsValue radix (acc * radix + v) cs)"

definition parseDigits :: "nat \<Rightarrow> string \<Rightarrow> nat option" where
  "parseDigits radix s = (if s = [] then None else digitsValue radix 0 s)"

definition StringToBigInt :: "string \<Rightarrow> int option" where
  "StringToBigInt str =
     (let s = trimString str
      in case s of
           [] \<Rightarrow> Some 0
         | c # rest \<Rightarrow>
             if c = CHR ''0'' \<and> rest \<noteq> [] \<and> hd rest \<in> {CHR ''x'', CHR ''X''}
               then map_option int (parseDigits 16 (tl rest))
             else if c = CHR ''0'' \<and> rest \<noteq> [] \<and> hd rest \<in> {CHR ''o'', CHR ''O''}
               then map_option int (parseDigits 8 (tl rest))
             else if c = CHR ''0'' \<and> rest \<noteq> [] \<and> hd rest \<in> {CHR ''b'', CHR ''B''}
               then map_option int (parseDigits 2 (tl rest))
             else if c = CHR ''+'' then map_option int (parseDigits 10 rest)
             else if c = CHR ''-'' then map_option (\<lambda>n. - int n) (parseDigits 10 rest)
             else map_option int (parseDigits 10 s))"

text \<open>\<open>BigInt(v)\<close> of an optional string: \<open>undefined\<close> and \<open>null\<close> are a TypeError.\<close>

fun BigInt :: "optstr \<Rightarrow> int option" where
  "BigInt (Str s) = StringToBigInt s"
| "BigInt Undefined = None"
| "BigInt Null = None"

text \<open>listTables.tsx 59-79. The two \<open>try\<close> blocks turn every throw of \<open>BigInt\<close> into
  \<open>0n\<close>. The parameters are typed \<open>string\<close>; the caller passes optional fields through a
  non-null assertion, so \<open>undefined\<close> can arrive as well.\<close>

definition tryBigInt :: "optstr \<Rightarrow> int" where
  "tryBigInt v = (case BigInt v of Some i \<Rightarrow> i | None \<Rightarrow> 0)"

definition booleanPercents :: "optstr \<Rightarrow> optstr \<Rightarrow> string \<times> string" where
  "booleanPercents trueStr falseStr =
     (let t = tryBigInt trueStr;
          f = tryBigInt falseStr;
          d = t + f
      in (formatPercentOneDecimal t d, formatPercentOneDecimal f d))"

text \<open>What a well-formed percentage with one decimal looks like: digits, a point, one
  digit, the percent sign.\<close>

definition isPercentString :: "string \<Rightarrow> bool" where
  "isPercentString s =
     (case rev s of
        p # t # dot # ws \<Rightarrow>
          p = CHR ''%'' \<and> isDigit t \<and> dot = CHR ''.'' \<and> ws \<noteq> [] \<and> list_all isDigit ws
      | _ \<Rightarrow> False)"

text \<open>The number a rendered percentage stands for, in tenths of a percent.\<close>

definition readPercent :: "string \<Rightarrow> nat option" where
  "readPercent s =
     (case rev s of
        p # t # dot # ws \<Rightarrow>
          if p = CHR ''%'' \<and> dot = CHR ''.''
          then (case digitValue 10 t of
                  None \<Rightarrow> None
                | Some tenth \<Rightarrow> map_option (\<lambda>whole. whole * 10 + tenth) (parseDigits 10 (rev ws)))
          else None
      | _ \<Rightarrow> None)"

section \<open>Data types of columns\<close>

text \<open>listTables.tsx 31-42, 47-49, 125-138.\<close>

definition isNumericDataType :: "string \<Rightarrow> bool" where
  "isNumericDataType dt =
     (let t = toLowerCase dt
      in t = ''numeric'' \<or> t = ''decimal'' \<or> t = ''smallint'' \<or> t = ''integer'' \<or>
         t = ''bigint'' \<or> t = ''real'' \<or> t = ''double precision'')"

definition isBooleanDataType :: "string \<Rightarrow> bool" where
  "isBooleanDataType dt = (toLowerCase dt = ''boolean'')"

definition isTemporalDataType :: "string \<Rightarrow> bool" where
  "isTemporalDataType dt =
     (let t = toLowerCase dt
      in t = ''date'' \<or> t = ''timestamp with time zone'' \<or>
         t = ''timestamp without time zone'' \<or> t = ''timestamptz'' \<or>
         t = ''time with time zone'' \<or> t = ''time without time zone'' \<or>
         t = ''timetz'' \<or> t = ''timestamp'' \<or> t = ''time'')"

text \<open>
  listTables.tsx 81-123. The lookup table is an object literal, and \<open>map[t]\<close> is a
  property read: it finds the literal's own properties and then those the literal
  inherits from \<open>Object.prototype\<close>, which are functions (\<open>constructor\<close>,
  \<open>hasOwnProperty\<close>, ...) and, under \<open>__proto__\<close>, the prototype object itself. So the
  value read, and the value returned, need not be a string.
\<close>

datatype jsvalue =
    JString string
  | JFunction nat  \<comment> \<open>a built-in function; the number is its \<open>length\<close> property\<close>
  | JObjectPrototype

definition humanDataTypeMap :: "(string \<times> string) list" where
  "humanDataTypeMap =
     [(''timestamp with time zone'', ''tstz''),
      (''timestamptz'', ''tstz''),
      (''timestamp without time zone'', ''ts-ntz''),
      (''timestamp'', ''ts-ntz''),
      (''time with time zone'', ''time-tz''),
      (''timetz'', ''time-tz''),
      (''time without time zone'', ''time-ntz''),
      (''time'', ''time-ntz''),
      (''character varying'', ''varchar''),
      (''varchar'', ''varchar''),
      (''character'', ''char''),
      (''char'', ''char''),
      (''text'', ''text''),
      (''integer'', ''int''),
      (''int4'', ''int''),
      (''bigint'', ''bigint''),
      (''int8'', ''bigint''),
      (''smallint'', ''smallint''),
      (''int2'', ''smallint''),
      (''numeric'', ''numeric''),
      (''decimal'', ''decimal''),
      (''real'', ''real''),
      (''double precision'', ''float8''),
      (''float8'', ''float8''),
      (''boolean'', ''bool''),
      (''bool'', ''bool''),
      (''uuid'', ''uuid''),
      (''jsonb'', ''jsonb''),
      (''json'', ''json''),
      (''bytea'', ''bytea''),
      (''date'', ''date''),
      (''interval'', ''interval'')]"

text \<open>The properties of \<open>Object.prototype\<close>.\<close>

definition objectPrototype :: "(string \<times> jsvalue) list" where
  "objectPrototype =
     [(''constructor'', JFunction 1),
      (''__defineGetter__'', JFunction 2),
      (''__defineSetter__'', JFunction 2),
      (''hasOwnProperty'', JFunction 1),
      (''__lookupGetter__'', JFunction 1),
      (''__lookupSetter__'', JFunction 1),
      (''isPrototypeOf'', JFunction 1),
      (''propertyIsEnumerable'', JFunction 1),
      (''toString'', JFunction 0),
      (''valueOf'', JFunction 0),
      (''__proto__'', JObjectPrototype),
      (''toLocaleString'', JFunction 0)]"

text \<open>\<open>obj[k]\<close> for an object literal with the string-valued own properties \<open>own\<close>;
  \<open>None\<close> is \<open>undefined\<close>.\<close>

definition getProperty :: "(string \<times> string) list \<Rightarrow> string \<Rightarrow> jsvalue option" where
  "getProperty own k =
     (case map_of own k of
        Some v \<Rightarrow> Some (JString v)
      | None \<Rightarrow> map_of objectPrototype k)"

text \<open>\<open>out.length > 8\<close>: the length of a string, the \<open>length\<close> of a function, and
  \<open>undefined > 8\<close>, which is false, for the prototype object.\<close>

fun lengthAbove :: "nat \<Rightarrow> jsvalue \<Rightarrow> bool" where
  "lengthAbove n (JString s) = (n < length s)"
| "lengthAbove n (JFunction k) = (n < k)"
| "lengthAbove n JObjectPrototype = False"

text \<open>\<open>out.slice(0, n)\<close>. Only strings have the method; the program calls it when
  \<open>lengthAbove\<close> holds, which it does for no inherited property.\<close>

fun sliceTo :: "nat \<Rightarrow> jsvalue \<Rightarrow> jsvalue" where
  "sliceTo n (JString s) = JString (take n s)"
| "sliceTo n v = v"

definition humanDataType :: "string \<Rightarrow> jsvalue" where
  "humanDataType dt =
     (let t = toLowerCase dt;
          out = (case getProperty humanDataTypeMap t of Some v \<Rightarrow> v | None \<Rightarrow> JString dt)
      in if lengthAbove 8 out then sliceTo 8 out else out)"

section \<open>Dates\<close>

text \<open>
  A \<open>Date\<close> is its time value, the milliseconds since 1970-01-01T00:00:00Z, or the
  Invalid Date, here \<open>None\<close>. The calendar is the proleptic Gregorian one, with days
  counted from the epoch, and is written as the language defines it.
\<close>

definition msPerDay :: int where
  "msPerDay = 86400000"

text \<open>The day number of the first day of year \<open>y\<close> (DayFromYear).\<close>

definition DayFromYear :: "int \<Rightarrow> int" where
  "DayFromYear y = 365 * (y - 1970) + (y - 1969) div 4 - (y - 1901) div 100 + (y - 1601) div 400"

definition isLeapYear :: "int \<Rightarrow> bool" where
  "isLeapYear y = (y mod 4 = 0 \<and> (y mod 100 \<noteq> 0 \<or> y mod 400 = 0))"

definition daysInMonth :: "int \<Rightarrow> int \<Rightarrow> int" where
  "daysInMonth y m =
     (if m = 2 then (if isLeapYear y then 29 else 28)
      else if m = 4 \<or> m = 6 \<or> m = 9 \<or> m = 11 then 30 else 31)"

text \<open>The days of a year before its month \<open>m\<close> (1 to 12); \<open>leap\<close> is 1 in a leap year.\<close>

definition daysBeforeMonth :: "int \<Rightarrow> int \<Rightarrow> int" where
  "daysBeforeMonth leap m =
     (if m = 1 then 0 else if m = 2 then 31 else if m = 3 then 59 + leap
      else if m = 4 then 90 + leap else if m = 5 then 120 + leap
      else if m = 6 then 151 + leap else if m = 7 then 181 + leap
      else if m = 8 then 212 + leap else if m = 9 then 243 + leap
      else if m = 10 then 273 + leap else if m = 11 then 304 + leap
      else 334 + leap)"

text \<open>The day number of year \<open>y\<close>, month \<open>m\<close> (1 to 12), day \<open>d\<close> (MakeDay).\<close>

definition dayOfDate :: "int \<Rightarrow> int \<Rightarrow> int \<Rightarrow> int" where
  "dayOfDate y m d = DayFromYear y + daysBeforeMonth (if isLeapYear y then 1 else 0) m + d - 1"

text \<open>
  The year of a day number (YearFromTime): the largest \<open>y\<close> whose first day is not after
  the day. It is searched from the estimate \<open>1970 + day div 365\<close>, first down to a year
  that starts on or before the day, then up while the next year does so too. Both
  searches end because a year has at least 364 days.
\<close>

function downYear :: "int \<Rightarrow> int \<Rightarrow> int" where
  "downYear day y = (if day < DayFromYear y then downYear day (y - 1) else y)"
  by pat_completeness auto
termination
proof (relation "measure (\<lambda>(day, y). nat (DayFromYear y - day))")
  show "wf (measure (\<lambda>(day, y). nat (DayFromYear y - day)))" by simp
next
  fix day y :: int
  assume less: "day < DayFromYear y"
  have step: "a div n \<le> (a + 1) div n \<and> (a + 1) div n \<le> a div n + 1" if "0 < n" for a n :: int
  proof
    show "a div n \<le> (a + 1) div n" using that by (intro zdiv_mono1) simp_all
    have "(a + 1) div n \<le> (a + n) div n" using that by (intro zdiv_mono1) simp_all
    also have "(a + n) div n = a div n + 1" using that div_add_self2 [of n a] by simp
    finally show "(a + 1) div n \<le> a div n + 1" .
  qed
  define p q r where "p = (y - 1 - 1969) div 4" and "q = (y - 1 - 1901) div 100"
    and "r = (y - 1 - 1601) div 400"
  define p' q' r' where "p' = (y - 1969) div 4" and "q' = (y - 1901) div 100"
    and "r' = (y - 1601) div 400"
  have b: "p \<le> p'" "q' \<le> q + 1" "r \<le> r'"
    using step [of 4 "y - 1 - 1969"] step [of 100 "y - 1 - 1901"] step [of 400 "y - 1 - 1601"]
    by (simp_all add: p_def p'_def q_def q'_def r_def r'_def)
  have d0: "DayFromYear (y - 1) = 365 * (y - 1 - 1970) + p - q + r"
    by (simp add: DayFromYear_def p_def q_def r_def)
  have d1: "DayFromYear y = 365 * (y - 1970) + p' - q' + r'"
    by (simp add: DayFromYear_def p'_def q'_def r'_def)
  have "DayFromYear (y - 1) < DayFromYear y" unfolding d0 d1 using b by simp
  then show "((day, y - 1), (day, y)) \<in> measure (\<lambda>(day, y). nat (DayFromYear y - day))"
    using less by simp
qed

function upYear :: "int \<Rightarrow> int \<Rightarrow> int" where
  "upYear day y = (if DayFromYear (y + 1) \<le> day then upYear day (y + 1) else y)"
  by pat_completeness auto
termination
proof (relation "measure (\<lambda>(day, y). nat (day + 1 - DayFromYear (y + 1)))")
  show "wf (measure (\<lambda>(day, y). nat (day + 1 - DayFromYear (y + 1))))" by simp
next
  fix day y :: int
  assume le: "DayFromYear (y + 1) \<le> day"
  have step: "a div n \<le> (a + 1) div n \<and> (a + 1) div n \<le> a div n + 1" if "0 < n" for a n :: int
  proof
    show "a div n \<le> (a + 1) div n" using that by (intro zdiv_mono1) simp_all
    have "(a + 1) div n \<le> (a + n) div n" using that by (intro zdiv_mono1) simp_all
    also have "(a + n) div n = a div n + 1" using that div_add_self2 [of n a] by simp
    finally show "(a + 1) div n \<le> a div n + 1" .
  qed
  define p q r where "p = (y + 1 - 1969) div 4" and "q = (y + 1 - 1901) div 100"
    and "r = (y + 1 - 1601) div 400"
  define p' q' r' where "p' = (y + 1 + 1 - 1969) div 4" and "q' = (y + 1 + 1 - 1901) div 100"
    and "r' = (y + 1 + 1 - 1601) div 400"
  have b: "p \<le> p'" "q' \<le> q + 1" "r \<le> r'"
    using step [of 4 "y + 1 - 1969"] step [of 100 "y + 1 - 1901"] step [of 400 "y + 1 - 1601"]
    by (simp_all add: p_def p'_def q_def q'_def r_def r'_def algebra_simps)
  have d0: "DayFromYear (y + 1) = 365 * (y + 1 - 1970) + p - q + r"
    by (simp add: DayFromYear_def p_def q_def r_def)
  have d1: "DayFromYear (y + 1 + 1) = 365 * (y + 1 + 1 - 1970) + p' - q' + r'"
    by (simp add: DayFromYear_def p'_def q'_def r'_def)
  have "DayFromYear (y + 1) < DayFromYear (y + 1 + 1)" unfolding d0 d1 using b by simp
  then show "((day, y + 1), (day, y)) \<in> measure (\<lambda>(day, y). nat (day + 1 - DayFromYear (y + 1)))"
    using le by simp
qed

declare downYear.simps [simp del] upYear.simps [simp del]

definition yearFromDay :: "int \<Rightarrow> int" where
  "yearFromDay day = upYear day (downYear day (1970 + day div 365))"

text \<open>The month of a day number, 0 to 11 (MonthFromTime): by the day within its year.\<close>

definition monthFromDay :: "int \<Rightarrow> int" where
  "monthFromDay day =
     (let y = yearFromDay day;
          dwy = day - DayFromYear y;
          leap = (if isLeapYear y then 1 else 0)
      in if dwy < 31 then 0 else if dwy < 59 + leap then 1 else if dwy < 90 + leap then 2
         else if dwy < 120 + leap then 3 else if dwy < 151 + leap then 4
         else if dwy < 181 + leap then 5 else if dwy < 212 + leap then 6
         else if dwy < 243 + leap then 7 else if dwy < 273 + leap then 8
         else if dwy < 304 + leap then 9 else if dwy < 334 + leap then 10 else 11)"

definition getUTCFullYear :: "int \<Rightarrow> int" where
  "getUTCFullYear t = yearFromDay (t div msPerDay)"

definition getUTCMonth :: "int \<Rightarrow> int" where
  "getUTCMonth t = monthFromDay (t div msPerDay)"

definition getUTCHours :: "int \<Rightarrow> int" where
  "getUTCHours t = (t mod msPerDay) div 3600000"

definition getUTCMinutes :: "int \<Rightarrow> int" where
  "getUTCMinutes t = (t mod 3600000) div 60000"

text \<open>
  What the program takes from its host: the time zone, as the function from a local
  time value to the UTC one, and what \<open>new Date(s)\<close> makes of a string outside the
  format below, which the language leaves to the engine.
\<close>

record runtime =
  localToUTC :: "int \<Rightarrow> int"
  parseOtherDate :: "string \<Rightarrow> int option"

text \<open>
  The Date Time String Format of the language, with four-digit years: \<open>YYYY\<close>,
  \<open>YYYY-MM\<close> or \<open>YYYY-MM-DD\<close>, then nothing or \<open>T\<close> and \<open>HH:mm\<close>, \<open>HH:mm:ss\<close> or
  \<open>HH:mm:ss.sss\<close>, then nothing, \<open>Z\<close> or an offset \<open>+HH:mm\<close>, \<open>-HH:mm\<close>. A date alone is
  UTC, a date and time without offset is local time. Fields out of range, and days a
  month does not have, are not of the format.
\<close>

fun readDigits :: "nat \<Rightarrow> string \<Rightarrow> (nat \<times> string) option" where
  "readDigits 0 s = Some (0, s)"
| "readDigits (Suc n) [] = None"
| "readDigits (Suc n) (c # cs) =
     (if isDigit c
      then (case readDigits n cs of
              None \<Rightarrow> None
            | Some (v, r) \<Rightarrow> Some ((of_char c - 48) * 10 ^ n + v, r))
      else None)"

definition expectChar :: "char \<Rightarrow> string \<Rightarrow> string option" where
  "expectChar c s = (case s of [] \<Rightarrow> None | x # r \<Rightarrow> if x = c then Some r else None)"

text \<open>The date part: year, month, day, and the rest of the string.\<close>

definition parseIsoDate :: "string \<Rightarrow> (int \<times> int \<times> int \<times> string) option" where
  "parseIsoDate s =
     (case readDigits 4 s of
        None \<Rightarrow> None
      | Some (y, r1) \<Rightarrow>
          (case expectChar CHR ''-'' r1 of
             None \<Rightarrow> Some (int y, 1, 1, r1)
           | Some r2 \<Rightarrow>
               (case readDigits 2 r2 of
                  None \<Rightarrow> None
                | Some (m, r3) \<Rightarrow>
                    (case expectChar CHR ''-'' r3 of
                       None \<Rightarrow> Some (int y, int m, 1, r3)
                     | Some r4 \<Rightarrow>
                         (case readDigits 2 r4 of
                            None \<Rightarrow> None
                          | Some (d, r5) \<Rightarrow> Some (int y, int m, int d, r5))))))"

text \<open>Seconds and milliseconds, when present.\<close>

definition parseIsoSeconds :: "string \<Rightarrow> (int \<times> int \<times> string) option" where
  "parseIsoSeconds s =
     (case expectChar CHR '':'' s of
        None \<Rightarrow> Some (0, 0, s)
      | Some r1 \<Rightarrow>
          (case readDigits 2 r1 of
             None \<Rightarrow> None
           | Some (sec, r2) \<Rightarrow>
               (case expectChar CHR ''.'' r2 of
                  None \<Rightarrow> Some (int sec, 0, r2)
                | Some r3 \<Rightarrow>
                    (case readDigits 3 r3 of
                       None \<Rightarrow> None
                     | Some (ms, r4) \<Rightarrow> Some (int sec, int ms, r4)))))"

text \<open>The offset in minutes; \<open>None\<close> inside is local time.\<close>

definition parseIsoOffset :: "string \<Rightarrow> int option option" where
  "parseIsoOffset s =
     (if s = [] then Some None
      else if s = ''Z'' then Some (Some 0)
      else if hd s = CHR ''+'' \<or> hd s = CHR ''-''
      then (case readDigits 2 (tl s) of
              None \<Rightarrow> None
            | Some (h, r1) \<Rightarrow>
                (case expectChar CHR '':'' r1 of
                   None \<Rightarrow> None
                 | Some r2 \<Rightarrow>
                     (case readDigits 2 r2 of
                        None \<Rightarrow> None
                      | Some (m, r3) \<Rightarrow>
                          if r3 = [] \<and> h \<le> 23 \<and> m \<le> 59
                          then Some (Some ((if hd s = CHR ''-'' then - 1 else 1) *
                                           (int h * 60 + int m)))
                          else None)))
      else None)"

text \<open>The time of day in milliseconds and the offset, from the text after \<open>T\<close>.\<close>

definition parseIsoTime :: "string \<Rightarrow> (int \<times> int option) option" where
  "parseIsoTime s =
     (case readDigits 2 s of
        None \<Rightarrow> None
      | Some (h, r1) \<Rightarrow>
          (case expectChar CHR '':'' r1 of
             None \<Rightarrow> None
           | Some r2 \<Rightarrow>
               (case readDigits 2 r2 of
                  None \<Rightarrow> None
                | Some (mi, r3) \<Rightarrow>
                    (case parseIsoSeconds r3 of
                       None \<Rightarrow> None
                     | Some (sec, ms, r4) \<Rightarrow>
                         (case parseIsoOffset r4 of
                            None \<Rightarrow> None
                          | Some off \<Rightarrow>
                              if (h \<le> 23 \<and> mi \<le> 59 \<and> sec \<le> 59) \<or>
                                 (h = 24 \<and> mi = 0 \<and> sec = 0 \<and> ms = 0)
                              then Some (int h * 3600000 + int mi * 60000 + sec * 1000 + ms, off)
                              else None)))))"

definition parseIso :: "runtime \<Rightarrow> string \<Rightarrow> int option" where
  "parseIso rt s =
     (case parseIsoDate s of
        None \<Rightarrow> None
      | Some (y, m, d, r) \<Rightarrow>
          if 1 \<le> m \<and> m \<le> 12 \<and> 1 \<le> d \<and> d \<le> daysInMonth y m
          then (if r = [] then Some (dayOfDate y m d * msPerDay)
                else (case expectChar CHR ''T'' r of
                        None \<Rightarrow> None
                      | Some r1 \<Rightarrow>
                          (case parseIsoTime r1 of
                             None \<Rightarrow> None
                           | Some (ms, None) \<Rightarrow>
                               Some (localToUTC rt (dayOfDate y m d * msPerDay + ms))
                           | Some (ms, Some off) \<Rightarrow>
                               Some (dayOfDate y m d * msPerDay + ms - off * 60000))))
          else None)"

text \<open>\<open>new Date(s)\<close> for a string.\<close>

definition newDate :: "runtime \<Rightarrow> string \<Rightarrow> int option" where
  "newDate rt s = (case parseIso rt s of Some t \<Rightarrow> Some t | None \<Rightarrow> parseOtherDate rt s)"

datatype js_error = TypeError

text \<open>listTables.tsx 140-148. \<open>s.includes\<close> throws on \<open>undefined\<close> and \<open>null\<close>; the
  \<open>try\<close> turns the throw into \<open>null\<close>.\<close>

fun safeParseDateLike :: "runtime \<Rightarrow> optstr \<Rightarrow> int option" where
  "safeParseDateLike rt (Str s) =
     (let normalized = (if CHR ''T'' \<in> set s then s else replaceFirstChar CHR '' '' ''T'' s)
      in newDate rt normalized)"
| "safeParseDateLike rt Undefined = None"
| "safeParseDateLike rt Null = None"

text \<open>The test \<open>/Z|[+-]\d{2}:?\d{2}$/\<close>: a \<open>Z\<close> anywhere, or at the end a sign, two
  digits, an optional colon and two digits.\<close>

definition hasZoneSuffix :: "string \<Rightarrow> bool" where
  "hasZoneSuffix base =
     (CHR ''Z'' \<in> set base \<or>
      (case rev base of
         d4 # d3 # x # rest \<Rightarrow>
           isDigit d4 \<and> isDigit d3 \<and>
           ((x = CHR '':'' \<and>
             (case rest of
                d2 # d1 # sg # _ \<Rightarrow> isDigit d2 \<and> isDigit d1 \<and> (sg = CHR ''+'' \<or> sg = CHR ''-'')
              | _ \<Rightarrow> False)) \<or>
            (isDigit x \<and>
             (case rest of
                d1 # sg # _ \<Rightarrow> isDigit d1 \<and> (sg = CHR ''+'' \<or> sg = CHR ''-'')
              | _ \<Rightarrow> False)))
       | _ \<Rightarrow> False))"

text \<open>listTables.tsx 150-156; no \<open>try\<close> here. \<open>s.split("T")[1]\<close> is the text between the
  first \<open>T\<close> and the next.\<close>

fun parseTimeOnly :: "runtime \<Rightarrow> optstr \<Rightarrow> js_error + int option" where
  "parseTimeOnly rt (Str s) =
     (let timePart = (if CHR ''T'' \<in> set s
                      then takeWhile (\<lambda>c. c \<noteq> CHR ''T'') (tl (dropWhile (\<lambda>c. c \<noteq> CHR ''T'') s))
                      else s);
          base = ''1970-01-01T'' @ timePart;
          withZ = (if hasZoneSuffix base then base else base @ ''Z'')
      in Inr (newDate rt withZ))"
| "parseTimeOnly rt Undefined = Inl TypeError"
| "parseTimeOnly rt Null = Inl TypeError"

text \<open>listTables.tsx 158-167.\<close>

definition months :: "string list" where
  "months = [''Jan'', ''Feb'', ''Mar'', ''Apr'', ''May'', ''Jun'',
             ''Jul'', ''Aug'', ''Sep'', ''Oct'', ''Nov'', ''Dec'']"

definition fmtMonthYear :: "int \<Rightarrow> string" where
  "fmtMonthYear d = months ! nat (getUTCMonth d) @ '' '' @ intToString (getUTCFullYear d)"

definition fmtHHMM :: "int \<Rightarrow> string" where
  "fmtHHMM d =
     (let hh = padStart0 2 (intToString (getUTCHours d));
          mm = padStart0 2 (intToString (getUTCMinutes d))
      in hh @ '':'' @ mm)"

text \<open>listTables.tsx 170-171.\<close>

definition isTimeOnly :: "string \<Rightarrow> bool" where
  "isTimeOnly dt =
     (let t = toLowerCase dt in startsWith ''time '' t \<or> t = ''time'' \<or> t = ''timetz'')"

text \<open>listTables.tsx 169-182. \<open>None\<close> inside is the \<open>null\<close> the function returns.\<close>

definition formatTemporalRange :: "runtime \<Rightarrow> optstr \<Rightarrow> optstr \<Rightarrow> string \<Rightarrow> js_error + string option" where
  "formatTemporalRange rt minStr maxStr dt =
     (if isTimeOnly dt
      then (case parseTimeOnly rt minStr of
              Inl e \<Rightarrow> Inl e
            | Inr d1 \<Rightarrow>
                (case parseTimeOnly rt maxStr of
                   Inl e \<Rightarrow> Inl e
                 | Inr d2 \<Rightarrow>
                     (case (d1, d2) of
                        (Some t1, Some t2) \<Rightarrow> Inr (Some (fmtHHMM t1 @ ''-'' @ fmtHHMM t2))
                      | _ \<Rightarrow> Inr None)))
      else (case (safeParseDateLike rt minStr, safeParseDateLike rt maxStr) of
              (Some t1, Some t2) \<Rightarrow> Inr (Some (fmtMonthYear t1 @ ''-'' @ fmtMonthYear t2))
            | _ \<Rightarrow> Inr None))"

section \<open>Tables, columns and views\<close>

text \<open>listTables.tsx 6-29 (listTables.ts 4-23 has the same types, with \<open>ColumnInfo\<close>
  holding the name and the data type only). An optional field is \<open>Undefined\<close> when
  absent. A \<open>bigint\<close> is an \<^typ>\<open>int\<close>; \<open>column_count\<close> is an integral number.\<close>

record TableInfo =
  ti_table_schema :: string
  ti_table_name :: string
  ti_column_count :: int
  ti_estimated_rows :: int

record ColumnInfo =
  column_name :: string
  data_type :: string
  min_text :: optstr
  max_text :: optstr
  true_count :: optstr
  false_count :: optstr

text \<open>\<open>exact_rows?: bigint | null\<close>.\<close>

datatype exact_rows = ExactUndefined | ExactNull | Exact int

record TableView =
  table_schema :: string
  table_name :: string
  column_count :: int
  columns :: "ColumnInfo list"
  estimated_rows :: "int option"
  exact_rows :: exact_rows

datatype mode = Estimated | ExactMode

section \<open>The database\<close>

text \<open>
  The database is outside the program. A query is answered with rows or fails; the
  answer may depend on the statement and on when it is asked, so every query function
  takes the number of queries the connection has answered before. The rows have the
  types the program declares for them. The statements over the catalog are fixed
  texts; those over user tables are built from quoted identifiers and are passed on.
\<close>

datatype db_error = DbError string

record ColumnRow =
  cr_table_schema :: string
  cr_table_name :: string
  cr_column_name :: string
  cr_data_type :: string

record ColumnRef =
  ref_table_schema :: string
  ref_table_name :: string
  ref_column_name :: string

record RangeRow =
  row_min :: "string option"
  row_max :: "string option"

record HistRow =
  row_t :: string
  row_f :: string

record CountRow =
  row_count :: string

record client =
  connectClient :: "db_error option"
  tablesQuery :: "nat \<Rightarrow> db_error + TableInfo list"
  columnsQuery :: "nat \<Rightarrow> db_error + ColumnRow list"
  numericColumnsQuery :: "nat \<Rightarrow> db_error + ColumnRef list"
  booleanColumnsQuery :: "nat \<Rightarrow> db_error + ColumnRef list"
  rangeQuery :: "nat \<Rightarrow> string \<Rightarrow> db_error + RangeRow list"
  histogramQuery :: "nat \<Rightarrow> string \<Rightarrow> db_error + HistRow list"
  endClient :: "db_error option"

record pool =
  countQuery :: "nat \<Rightarrow> string \<Rightarrow> db_error + CountRow list"

text \<open>A \<open>Map\<close> with string keys that the program only writes with \<open>set\<close> and reads
  with \<open>get\<close>: the list of the writes, the newest first. \<open>get\<close> finds the newest write
  of a key.\<close>

type_synonym 'v jsmap = "(string \<times> 'v) list"

definition mapSet :: "string \<Rightarrow> 'v \<Rightarrow> 'v jsmap \<Rightarrow> 'v jsmap" where
  "mapSet k v m = (k, v) # m"

definition mapGet :: "'v jsmap \<Rightarrow> string \<Rightarrow> 'v option" where
  "mapGet m k = map_of m k"

section \<open>Statistics collector\<close>

record Range =
  range_min :: "string option"
  range_max :: "string option"

record Histogram =
  hist_true :: "string option"
  hist_false :: "string option"

definition columnKey :: "ColumnRef \<Rightarrow> string" where
  "columnKey col = ref_table_schema col @ ''.'' @ ref_table_name col @ ''.'' @ ref_column_name col"

definition newline :: string where
  "newline = [CHR 0x0A]"

text \<open>listTables.tsx 240-242.\<close>

definition rangeSql :: "ColumnRef \<Rightarrow> string" where
  "rangeSql col =
     ''SELECT MIN('' @ quoteIdent (ref_column_name col) @ '')::text AS min,'' @ newline @
     ''                MAX('' @ quoteIdent (ref_column_name col) @ '')::text AS max'' @ newline @
     ''         FROM '' @ quoteIdent (ref_table_schema col) @ ''.'' @
     quoteIdent (ref_table_name col)"

text \<open>listTables.tsx 238-250, the body of the loop: the statistics of one column,
  whatever its query does. \<open>rows[0]?.min ?? null\<close> is \<open>null\<close> without a row.\<close>

definition rangeOf :: "db_error + RangeRow list \<Rightarrow> Range" where
  "rangeOf res =
     (case res of
        Inl e \<Rightarrow> \<lparr>range_min = None, range_max = None\<rparr>
      | Inr rows \<Rightarrow>
          (case rows of
             [] \<Rightarrow> \<lparr>range_min = None, range_max = None\<rparr>
           | r # _ \<Rightarrow> \<lparr>range_min = row_min r, range_max = row_max r\<rparr>))"

text \<open>listTables.tsx 236-251, the loop; \<open>n\<close> counts the queries.\<close>

fun rangesLoop :: "client \<Rightarrow> nat \<Rightarrow> ColumnRef list \<Rightarrow> Range jsmap \<Rightarrow> Range jsmap \<times> nat" where
  "rangesLoop cl n [] ranges = (ranges, n)"
| "rangesLoop cl n (col # cols) ranges =
     rangesLoop cl (Suc n) cols
       (mapSet (columnKey col) (rangeOf (rangeQuery cl n (rangeSql col))) ranges)"

text \<open>listTables.tsx 218-254. The query that lists the columns is outside every \<open>try\<close>.\<close>

definition fetchNumericRanges :: "client \<Rightarrow> nat \<Rightarrow> (db_error + Range jsmap) \<times> nat" where
  "fetchNumericRanges cl n =
     (case numericColumnsQuery cl n of
        Inl e \<Rightarrow> (Inl e, Suc n)
      | Inr numericCols \<Rightarrow>
          (let (ranges, n') = rangesLoop cl (Suc n) numericCols [] in (Inr ranges, n')))"

text \<open>listTables.tsx 313-316.\<close>

definition histogramSql :: "ColumnRef \<Rightarrow> string" where
  "histogramSql col =
     ''SELECT '' @ newline @
     ''          COUNT(*) FILTER (WHERE '' @ quoteIdent (ref_column_name col) @
       '' IS TRUE)::bigint AS t,'' @ newline @
     ''          COUNT(*) FILTER (WHERE '' @ quoteIdent (ref_column_name col) @
       '' IS FALSE)::bigint AS f'' @ newline @
     ''        FROM '' @ quoteIdent (ref_table_schema col) @ ''.'' @
     quoteIdent (ref_table_name col)"

text \<open>listTables.tsx 312-324.\<close>

definition histogramOf :: "db_error + HistRow list \<Rightarrow> Histogram" where
  "histogramOf res =
     (case res of
        Inl e \<Rightarrow> \<lparr>hist_true = None, hist_false = None\<rparr>
      | Inr rows \<Rightarrow>
          (case rows of
             [] \<Rightarrow> \<lparr>hist_true = None, hist_false = None\<rparr>
           | r # _ \<Rightarrow> \<lparr>hist_true = Some (row_t r), hist_false = Some (row_f r)\<rparr>))"

fun histogramsLoop :: "client \<Rightarrow> nat \<Rightarrow> ColumnRef list \<Rightarrow> Histogram jsmap \<Rightarrow> Histogram jsmap \<times> nat" where
  "histogramsLoop cl n [] hist = (hist, n)"
| "histogramsLoop cl n (col # cols) hist =
     histogramsLoop cl (Suc n) cols
       (mapSet (columnKey col) (histogramOf (histogramQuery cl n (histogramSql col))) hist)"

text \<open>listTables.tsx 292-327.\<close>

definition fetchBooleanHistograms :: "client \<Rightarrow> nat \<Rightarrow> (db_error + Histogram jsmap) \<times> nat" where
  "fetchBooleanHistograms cl n =
     (case booleanColumnsQuery cl n of
        Inl e \<Rightarrow> (Inl e, Suc n)
      | Inr booleanCols \<Rightarrow>
          (let (hist, n') = histogramsLoop cl (Suc n) booleanCols [] in (Inr hist, n')))"

section \<open>Catalog reader\<close>

definition tableKey :: "string \<Rightarrow> string \<Rightarrow> string" where
  "tableKey schema name = schema @ ''.'' @ name"

definition ofOption :: "string option \<Rightarrow> optstr" where
  "ofOption v = (case v of None \<Rightarrow> Null | Some s \<Rightarrow> Str s)"

text \<open>listTables.tsx 277-287: the column with its statistics. \<open>range?.min\<close> is
  \<open>undefined\<close> when the ranges have no entry for the column; the counts fall back to
  \<open>null\<close>.\<close>

definition columnInfoOf :: "Range jsmap \<Rightarrow> Histogram jsmap \<Rightarrow> ColumnRow \<Rightarrow> ColumnInfo" where
  "columnInfoOf ranges boolHist r =
     (let rangeKey = cr_table_schema r @ ''.'' @ cr_table_name r @ ''.'' @ cr_column_name r
      in \<lparr>column_name = cr_column_name r,
          data_type = cr_data_type r,
          min_text = (case mapGet ranges rangeKey of
                        None \<Rightarrow> Undefined | Some rng \<Rightarrow> ofOption (range_min rng)),
          max_text = (case mapGet ranges rangeKey of
                        None \<Rightarrow> Undefined | Some rng \<Rightarrow> ofOption (range_max rng)),
          true_count = (case mapGet boolHist rangeKey of
                          None \<Rightarrow> Null | Some h \<Rightarrow> ofOption (hist_true h)),
          false_count = (case mapGet boolHist rangeKey of
                           None \<Rightarrow> Null | Some h \<Rightarrow> ofOption (hist_false h))\<rparr>)"

text \<open>listTables.tsx 272-288: the columns grouped by table, in the order of the rows.\<close>

fun groupByTable :: "(ColumnRow \<Rightarrow> ColumnInfo) \<Rightarrow> ColumnRow list \<Rightarrow>
    (string \<rightharpoonup> ColumnInfo list) \<Rightarrow> (string \<rightharpoonup> ColumnInfo list)" where
  "groupByTable info [] byTable = byTable"
| "groupByTable info (r # rs) byTable =
     (let key = tableKey (cr_table_schema r) (cr_table_name r);
          present = (case byTable key of None \<Rightarrow> [] | Some cs \<Rightarrow> cs)
      in groupByTable info rs (byTable(key \<mapsto> present @ [info r])))"

text \<open>listTables.tsx 256-290.\<close>

definition fetchColumnsByTable :: "client \<Rightarrow> nat \<Rightarrow> (db_error + (string \<rightharpoonup> ColumnInfo list)) \<times> nat" where
  "fetchColumnsByTable cl n =
     (case columnsQuery cl n of
        Inl e \<Rightarrow> (Inl e, Suc n)
      | Inr rows \<Rightarrow>
          (case fetchNumericRanges cl (Suc n) of
             (Inl e, n1) \<Rightarrow> (Inl e, n1)
           | (Inr ranges, n1) \<Rightarrow>
               (case fetchBooleanHistograms cl n1 of
                  (Inl e, n2) \<Rightarrow> (Inl e, n2)
                | (Inr boolHist, n2) \<Rightarrow>
                    (Inr (groupByTable (columnInfoOf ranges boolHist) rows Map.empty), n2))))"

text \<open>listTables.ts 69-90: the same without statistics; the four optional fields are
  not there.\<close>

definition plainColumnInfo :: "ColumnRow \<Rightarrow> ColumnInfo" where
  "plainColumnInfo r =
     \<lparr>column_name = cr_column_name r, data_type = cr_data_type r,
      min_text = Undefined, max_text = Undefined,
      true_count = Undefined, false_count = Undefined\<rparr>"

definition fetchColumnsByTable_ts :: "client \<Rightarrow> nat \<Rightarrow> (db_error + (string \<rightharpoonup> ColumnInfo list)) \<times> nat" where
  "fetchColumnsByTable_ts cl n =
     (case columnsQuery cl n of
        Inl e \<Rightarrow> (Inl e, Suc n)
      | Inr rows \<Rightarrow> (Inr (groupByTable plainColumnInfo rows Map.empty), Suc n))"

text \<open>listTables.tsx 329-348 and listTables.ts 102-121: the rows of the statement.\<close>

definition fetchEstimatedTables :: "client \<Rightarrow> nat \<Rightarrow> (db_error + TableInfo list) \<times> nat" where
  "fetchEstimatedTables cl n = (tablesQuery cl n, Suc n)"

text \<open>
  The statement itself (listTables.tsx 331-345) is SQL, which the database runs. Its
  meaning over the three catalog relations it reads: \<open>pg_class\<close> joined with
  \<open>pg_namespace\<close>, left-joined with the number of columns per table, ordinary tables
  outside the two system schemas only, ordered by schema and name. \<open>reltuples\<close> is a
  floating-point estimate; \<open>reltuples_bigint\<close> is its value after the cast to \<open>bigint\<close>,
  which is negative for a table never analysed.
\<close>

record pg_class_row =
  relname :: string
  relnamespace :: nat
  relkind :: char
  reltuples_bigint :: int

record pg_namespace_row =
  oid :: nat
  nspname :: string

record catalog =
  pg_class :: "pg_class_row list"
  pg_namespace :: "pg_namespace_row list"
  information_schema_columns :: "ColumnRow list"

definition estimatedTablesStatement :: "catalog \<Rightarrow> TableInfo list" where
  "estimatedTablesStatement cat =
     sort_key (\<lambda>t. (ti_table_schema t, ti_table_name t))
       [\<lparr>ti_table_schema = nspname n,
         ti_table_name = relname c,
         ti_column_count =
           int (length (filter (\<lambda>r. cr_table_schema r = nspname n \<and> cr_table_name r = relname c)
                          (information_schema_columns cat))),
         ti_estimated_rows = max (reltuples_bigint c) 0\<rparr>.
        c \<leftarrow> pg_class cat, n \<leftarrow> pg_namespace cat,
        oid n = relnamespace c,
        relkind c = CHR ''r'',
        nspname n \<notin> set [''pg_catalog'', ''information_schema'']]"

section \<open>View builder and row counter\<close>

text \<open>listTables.tsx 350-361, listTables.ts 123-134.\<close>

definition buildEstimatedView :: "TableInfo list \<Rightarrow> (string \<rightharpoonup> ColumnInfo list) \<Rightarrow> TableView list" where
  "buildEstimatedView estimated columnsByTable =
     map (\<lambda>t. \<lparr>table_schema = ti_table_schema t,
               table_name = ti_table_name t,
               column_count = ti_column_count t,
               columns = (case columnsByTable (tableKey (ti_table_schema t) (ti_table_name t)) of
                            None \<Rightarrow> [] | Some cs \<Rightarrow> cs),
               estimated_rows = Some (ti_estimated_rows t),
               exact_rows = ExactUndefined\<rparr>) estimated"

text \<open>listTables.tsx 481-483.\<close>

definition countSql :: "TableInfo \<Rightarrow> string" where
  "countSql t =
     ''SELECT COUNT(*)::bigint AS count FROM '' @ quoteIdent (ti_table_schema t) @ ''.'' @
     quoteIdent (ti_table_name t)"

text \<open>listTables.tsx 479-488: the count of one table. Every throw inside the \<open>try\<close>
  (the query failing, no row to read \<open>count\<close> from, \<open>BigInt\<close> refusing the text) leaves
  \<open>null\<close>.\<close>

definition exactOf :: "db_error + CountRow list \<Rightarrow> exact_rows" where
  "exactOf res =
     (case res of
        Inl e \<Rightarrow> ExactNull
      | Inr rows \<Rightarrow>
          (case rows of
             [] \<Rightarrow> ExactNull
           | r # _ \<Rightarrow> (case StringToBigInt (row_count r) of
                        None \<Rightarrow> ExactNull
                      | Some i \<Rightarrow> Exact i)))"

text \<open>listTables.tsx 471-501, listTables.ts 156-186: one count query per table, in
  order, on the pool; \<open>n\<close> counts the pool's queries.\<close>

fun exactViews :: "pool \<Rightarrow> nat \<Rightarrow> TableInfo list \<Rightarrow> (string \<rightharpoonup> ColumnInfo list) \<Rightarrow> TableView list" where
  "exactViews pl n [] columnsByTable = []"
| "exactViews pl n (t # ts) columnsByTable =
     \<lparr>table_schema = ti_table_schema t,
      table_name = ti_table_name t,
      column_count = ti_column_count t,
      columns = (case columnsByTable (tableKey (ti_table_schema t) (ti_table_name t)) of
                   None \<Rightarrow> [] | Some cs \<Rightarrow> cs),
      estimated_rows = None,
      exact_rows = exactOf (countQuery pl n (countSql t))\<rparr>
     # exactViews pl (Suc n) ts columnsByTable"

definition buildExactView :: "pool \<Rightarrow> TableInfo list \<Rightarrow> (string \<rightharpoonup> ColumnInfo list) \<Rightarrow> TableView list" where
  "buildExactView pl estimated columnsByTable = exactViews pl 0 estimated columnsByTable"

section \<open>Renderers\<close>

text \<open>The em dash U+2014 of the output lines is the one character of the program's
  texts above code unit 255. It stands here as its three UTF-8 bytes; the program
  never measures a string that holds it.\<close>

definition emDash :: string where
  "emDash = [CHR 0xE2, CHR 0x80, CHR 0x94]"

text \<open>listTables.tsx 374-376, listTables.ts 137-140.\<close>

definition header :: "mode \<Rightarrow> string" where
  "header md =
     (case md of
        Estimated \<Rightarrow> ''Tables (schema.table) '' @ emDash @ '' ~rows (estimated), columns:''
      | ExactMode \<Rightarrow> ''Tables (schema.table) '' @ emDash @ '' rows (exact), columns:'')"

text \<open>listTables.tsx 364-369, listTables.ts 143-148 (the same expression).\<close>

definition countLabelFor :: "mode \<Rightarrow> TableView \<Rightarrow> string" where
  "countLabelFor md v =
     (case md of
        Estimated \<Rightarrow>
          ''~'' @ (case estimated_rows v of Some n \<Rightarrow> intToString n | None \<Rightarrow> ''0'')
      | ExactMode \<Rightarrow>
          (case exact_rows v of
             ExactNull \<Rightarrow> ''error''
           | Exact n \<Rightarrow> intToString n
           | ExactUndefined \<Rightarrow> ''0''))"

text \<open>\<open>Math.max(...xs)\<close> of lengths; the program calls it on lists that are not empty
  (or, for the range width, together with 5).\<close>

definition maxOf :: "nat list \<Rightarrow> nat" where
  "maxOf xs = foldr max xs 0"

subsection \<open>The plain-text renderer (listTables.ts)\<close>

text \<open>listTables.ts 92-100. Every \<open>console.log\<close> is one element of the result.\<close>

definition printColumns :: "ColumnInfo list \<Rightarrow> string list" where
  "printColumns cols =
     (if cols = [] then []
      else let maxName = maxOf (map (\<lambda>c. length (column_name c)) cols)
           in ''  columns:'' #
              map (\<lambda>c. ''  '' @ padEnd maxName (column_name c) @ ''  '' @ data_type c) cols)"

text \<open>listTables.ts 149-151.\<close>

definition tableLine :: "mode \<Rightarrow> TableView \<Rightarrow> string" where
  "tableLine md v =
     newline @ ''- '' @ table_schema v @ ''.'' @ table_name v @ '' '' @ emDash @ '' '' @
     countLabelFor md v @ '' rows, '' @ intToString (column_count v) @ '' cols'' @ newline"

text \<open>listTables.ts 136-154.\<close>

definition renderTables_ts :: "TableView list \<Rightarrow> mode \<Rightarrow> string list" where
  "renderTables_ts views md =
     header md # concat (map (\<lambda>v. tableLine md v # printColumns (columns v)) views)"

subsection \<open>The tabular renderer (listTables.tsx)\<close>

text \<open>The element tree the component returns: strings, \<open>Text\<close> and \<open>Box\<close> elements with
  their properties and children.\<close>

datatype ink =
    Leaf string
  | Text "(string \<times> string) list" "ink list"
  | Box "(string \<times> string) list" "ink list"

text \<open>The text of an element, and the lines of a tree: a \<open>Text\<close> is one line, a \<open>Box\<close>
  stacks its children. Colours, weights, borders and margins are dropped.\<close>

fun textOf :: "ink \<Rightarrow> string" where
  "textOf (Leaf s) = s"
| "textOf (Text props children) = concat (map textOf children)"
| "textOf (Box props children) = concat (map textOf children)"

fun linesOf :: "ink \<Rightarrow> string list" where
  "linesOf (Leaf s) = [s]"
| "linesOf (Text props children) = [concat (map textOf children)]"
| "linesOf (Box props children) = concat (map linesOf children)"

record Row =
  r_name :: string
  r_typeLabel :: jsvalue
  r_range :: string
  r_values :: string

text \<open>listTables.tsx 413-419.\<close>

definition rangeCell :: "runtime \<Rightarrow> ColumnInfo \<Rightarrow> js_error + string" where
  "rangeCell rt c =
     (if isNumericDataType (data_type c) \<and> min_text c \<noteq> Null \<and> max_text c \<noteq> Null
      then Inr (templ (min_text c) @ ''-'' @ templ (max_text c))
      else if isTemporalDataType (data_type c) \<and> min_text c \<noteq> Null \<and> max_text c \<noteq> Null
      then (case formatTemporalRange rt (min_text c) (max_text c) (data_type c) of
              Inl e \<Rightarrow> Inl e
            | Inr fr \<Rightarrow> Inr (case fr of None \<Rightarrow> [] | Some s \<Rightarrow> s))
      else Inr [])"

text \<open>listTables.tsx 420-424.\<close>

definition valuesCell :: "ColumnInfo \<Rightarrow> string" where
  "valuesCell c =
     (if isBooleanDataType (data_type c) \<and> true_count c \<noteq> Null \<and> false_count c \<noteq> Null
      then (let (tp, fp) = booleanPercents (true_count c) (false_count c)
            in ''Yes '' @ templ (true_count c) @ '' ('' @ tp @ '') | No '' @
               templ (false_count c) @ '' ('' @ fp @ '')'')
      else [])"

text \<open>listTables.tsx 411-426, one column.\<close>

definition columnRow :: "runtime \<Rightarrow> ColumnInfo \<Rightarrow> js_error + Row" where
  "columnRow rt c =
     (let typeLabel = humanDataType (data_type c)
      in case rangeCell rt c of
           Inl e \<Rightarrow> Inl e
         | Inr rng \<Rightarrow>
             Inr \<lparr>r_name = column_name c, r_typeLabel = typeLabel,
                  r_range = rng, r_values = valuesCell c\<rparr>)"

text \<open>\<open>v.columns.map(...)\<close>: a throw in one column ends the whole rendering.\<close>

fun columnRows :: "runtime \<Rightarrow> ColumnInfo list \<Rightarrow> js_error + Row list" where
  "columnRows rt [] = Inr []"
| "columnRows rt (c # cs) =
     (case columnRow rt c of
        Inl e \<Rightarrow> Inl e
      | Inr r \<Rightarrow> (case columnRows rt cs of Inl e \<Rightarrow> Inl e | Inr rs \<Rightarrow> Inr (r # rs)))"

text \<open>\<open>typeLabel.length\<close>, for the width of the type column. When a label is not a
  string its row throws below, so the width then plays no part; \<open>undefined\<close> counts as
  0 here.\<close>

fun labelLength :: "jsvalue \<Rightarrow> nat" where
  "labelLength (JString s) = length s"
| "labelLength (JFunction k) = k"
| "labelLength JObjectPrototype = 0"

text \<open>listTables.tsx 432-440.\<close>

definition columnsHeading :: "nat \<Rightarrow> nat \<Rightarrow> nat \<Rightarrow> ink" where
  "columnsHeading nameW typeW rangeW =
     Text []
       [Text [(''color'', ''gray''), (''bold'', ''true'')] [Leaf (padEnd nameW ''name'')],
        Text [] [Leaf ''  ''],
        Text [(''color'', ''gray''), (''bold'', ''true'')] [Leaf (padEnd typeW ''type'')],
        Text [] [Leaf ''  ''],
        Text [(''color'', ''gray''), (''bold'', ''true'')] [Leaf (padEnd rangeW ''range'')],
        Text [] [Leaf ''  ''],
        Text [(''color'', ''gray''), (''bold'', ''true'')] [Leaf ''values'']]"

text \<open>listTables.tsx 442-456. \<open>r.typeLabel.padEnd\<close> is a TypeError unless the label is a
  string.\<close>

definition rowLine :: "nat \<Rightarrow> nat \<Rightarrow> nat \<Rightarrow> Row \<Rightarrow> js_error + ink" where
  "rowLine nameW typeW rangeW r =
     (case r_typeLabel r of
        JString typeLabel \<Rightarrow>
          Inr (Text [(''key'', r_name r)]
                 ([Text [(''color'', ''green'')] [Leaf (padEnd nameW (r_name r))],
                   Text [] [Leaf ''  ''],
                   Text [(''color'', ''gray'')] [Leaf (padEnd typeW typeLabel)],
                   Text [] [Leaf ''  ''],
                   (if r_range r \<noteq> []
                    then Text [(''color'', ''yellow'')] [Leaf (padEnd rangeW (r_range r))]
                    else Text [] [Leaf (padEnd rangeW [])]),
                   Text [] [Leaf ''  '']] @
                  (if r_values r \<noteq> [] then [Text [(''color'', ''yellow'')] [Leaf (r_values r)]]
                   else [])))
      | _ \<Rightarrow> Inl TypeError)"

fun rowLines :: "nat \<Rightarrow> nat \<Rightarrow> nat \<Rightarrow> Row list \<Rightarrow> js_error + ink list" where
  "rowLines nameW typeW rangeW [] = Inr []"
| "rowLines nameW typeW rangeW (r # rs) =
     (case rowLine nameW typeW rangeW r of
        Inl e \<Rightarrow> Inl e
      | Inr l \<Rightarrow>
          (case rowLines nameW typeW rangeW rs of Inl e \<Rightarrow> Inl e | Inr ls \<Rightarrow> Inr (l # ls)))"

text \<open>listTables.tsx 410-460, for a table that has columns.\<close>

definition columnsBox :: "runtime \<Rightarrow> ColumnInfo list \<Rightarrow> js_error + ink" where
  "columnsBox rt cols =
     (case columnRows rt cols of
        Inl e \<Rightarrow> Inl e
      | Inr rows \<Rightarrow>
          (let nameW = maxOf (map (\<lambda>r. length (r_name r)) rows);
               typeW = maxOf (map (\<lambda>r. labelLength (r_typeLabel r)) rows);
               rangeW = maxOf (5 # map (\<lambda>r. length (r_range r)) rows)
           in case rowLines nameW typeW rangeW rows of
                Inl e \<Rightarrow> Inl e
              | Inr ls \<Rightarrow>
                  Inr (Box [(''flexDirection'', ''column''), (''marginTop'', ''1'')]
                         (columnsHeading nameW typeW rangeW # ls))))"

text \<open>listTables.tsx 391-409.\<close>

definition tableHeading :: "mode \<Rightarrow> TableView \<Rightarrow> ink" where
  "tableHeading md v =
     Text []
       [Text [(''bold'', ''true''), (''color'', ''yellow'')]
          [Leaf (table_schema v), Leaf ''.'', Leaf (table_name v)],
        Text [] [Leaf ('' '' @ emDash @ '' '')],
        Text [(''color'',
               (case md of
                  Estimated \<Rightarrow> ''magenta''
                | ExactMode \<Rightarrow> if exact_rows v = ExactNull then ''red'' else ''green''))]
          [Leaf (countLabelFor md v), Leaf '' rows''],
        Text [] [Leaf '', ''],
        Text [(''color'', ''blue'')] [Leaf (intToString (column_count v)), Leaf '' cols'']]"

text \<open>listTables.tsx 378-462, one table.\<close>

definition tableBox :: "runtime \<Rightarrow> mode \<Rightarrow> TableView \<Rightarrow> js_error + ink" where
  "tableBox rt md v =
     (let props = [(''key'', table_schema v @ ''.'' @ table_name v),
                   (''flexDirection'', ''column''), (''marginTop'', ''1''), (''padding'', ''1''),
                   (''borderStyle'', ''round''), (''borderColor'', ''gray'')]
      in if columns v \<noteq> []
         then (case columnsBox rt (columns v) of
                 Inl e \<Rightarrow> Inl e
               | Inr b \<Rightarrow> Inr (Box props [tableHeading md v, b]))
         else Inr (Box props [tableHeading md v]))"

fun tableBoxes :: "runtime \<Rightarrow> mode \<Rightarrow> TableView list \<Rightarrow> js_error + ink list" where
  "tableBoxes rt md [] = Inr []"
| "tableBoxes rt md (v # vs) =
     (case tableBox rt md v of
        Inl e \<Rightarrow> Inl e
      | Inr b \<Rightarrow> (case tableBoxes rt md vs of Inl e \<Rightarrow> Inl e | Inr bs \<Rightarrow> Inr (b # bs)))"

text \<open>listTables.tsx 363-469: the tree that is handed to the terminal library, or the
  error thrown while it is built.\<close>

definition renderTables :: "runtime \<Rightarrow> TableView list \<Rightarrow> mode \<Rightarrow> js_error + ink" where
  "renderTables rt views md =
     (case tableBoxes rt md views of
        Inl e \<Rightarrow> Inl e
      | Inr boxes \<Rightarrow>
          Inr (Box [(''flexDirection'', ''column''), (''paddingBottom'', ''1'')]
                 (Text [(''color'', ''cyan''), (''bold'', ''true'')] [Leaf (header md)] # boxes)))"

section \<open>The run\<close>

text \<open>listTables.tsx 203-216: the flags are the arguments that start with \<open>--\<close> and have
  no \<open>=\<close>.\<close>

definition parseFlags :: "string list \<Rightarrow> string list" where
  "parseFlags argv = filter (\<lambda>arg. startsWith ''--'' arg \<and> CHR ''='' \<notin> set arg) argv"

datatype failure = DbFailure db_error | JsFailure js_error

text \<open>What a run leaves: the lines of standard output, the tree on the screen, and the
  error that \<open>Failed to list tables:\<close> reports, if any.\<close>

record outcome =
  stdout :: "string list"
  screen :: "ink option"
  failed :: "failure option"

definition failWith :: "failure \<Rightarrow> outcome" where
  "failWith e = \<lparr>stdout = [], screen = None, failed = Some e\<rparr>"

text \<open>\<open>finally { await client.end(); }\<close>: an error of \<open>end\<close> becomes the error of the run;
  what was printed stays.\<close>

definition finallyEnd :: "client \<Rightarrow> outcome \<Rightarrow> outcome" where
  "finallyEnd cl out =
     (case endClient cl of None \<Rightarrow> out | Some e \<Rightarrow> out\<lparr>failed := Some (DbFailure e)\<rparr>)"

text \<open>listTables.tsx 503-529.\<close>

definition listTables :: "runtime \<Rightarrow> client \<Rightarrow> pool \<Rightarrow> string list \<Rightarrow> outcome" where
  "listTables rt cl pl argv =
     (case connectClient cl of
        Some e \<Rightarrow> failWith (DbFailure e)
      | None \<Rightarrow>
          finallyEnd cl
            (case fetchEstimatedTables cl 0 of
               (Inl e, n) \<Rightarrow> failWith (DbFailure e)
             | (Inr estimated, n) \<Rightarrow>
                 (case fetchColumnsByTable cl n of
                    (Inl e, n') \<Rightarrow> failWith (DbFailure e)
                  | (Inr columnsByTable, n') \<Rightarrow>
                      if estimated = []
                      then \<lparr>stdout = [''No tables found.''], screen = None, failed = None\<rparr>
                      else (let wantExact = (''--exact'' \<in> set (parseFlags argv));
                                views = (if \<not> wantExact
                                         then buildEstimatedView estimated columnsByTable
                                         else buildExactView pl estimated columnsByTable);
                                md = (if \<not> wantExact then Estimated else ExactMode)
                            in case renderTables rt views md of
                                 Inl e \<Rightarrow> failWith (JsFailure e)
                               | Inr tree \<Rightarrow> \<lparr>stdout = [], screen = Some tree, failed = None\<rparr>))))"

text \<open>listTables.ts 190-219.\<close>

definition listTables_ts :: "client \<Rightarrow> pool \<Rightarrow> string list \<Rightarrow> outcome" where
  "listTables_ts cl pl argv =
     (case connectClient cl of
        Some e \<Rightarrow> failWith (DbFailure e)
      | None \<Rightarrow>
          finallyEnd cl
            (case fetchEstimatedTables cl 0 of
               (Inl e, n) \<Rightarrow> failWith (DbFailure e)
             | (Inr estimated, n) \<Rightarrow>
                 (case fetchColumnsByTable_ts cl n of
                    (Inl e, n') \<Rightarrow> failWith (DbFailure e)
                  | (Inr columnsByTable, n') \<Rightarrow>
                      if estimated = []
                      then \<lparr>stdout = [''No tables found.''], screen = None, failed = None\<rparr>
                      else (let wantExact = (''--exact'' \<in> set (parseFlags argv));
                                views = (if \<not> wantExact
                                         then buildEstimatedView estimated columnsByTable
                                         else buildExactView pl estimated columnsByTable);
                                md = (if \<not> wantExact then Estimated else ExactMode)
                            in \<lparr>stdout = renderTables_ts views md, screen = None,
                                failed = None\<rparr>))))"

section \<open>The specification's reading of the two renderers\<close>

text \<open>
  The specification has the plain-text and the tabular output equal in content and
  different in presentation only: the same table headings, row-count labels and
  per-column information. Read on what the two renderers print, with presentation
  being the spacing, the bullet of the plain table line, the colours and the frames:
  the first lines are the same, every table line has the words of the tabular heading
  after its bullet, and under it the column lines have, one by one, the same words
  (after the label line of the plain output and the heading row of the tabular one).
\<close>

fun splitWords :: "string \<Rightarrow> string \<Rightarrow> string list" where
  "splitWords acc [] = (if acc = [] then [] else [rev acc])"
| "splitWords acc (c # cs) =
     (if c = CHR '' '' \<or> c = CHR 0x0A
      then (if acc = [] then splitWords [] cs else rev acc # splitWords [] cs)
      else splitWords (c # acc) cs)"

definition wordsOf :: "string \<Rightarrow> string list" where
  "wordsOf s = splitWords [] s"

definition sameColumnInformation :: "runtime \<Rightarrow> ColumnInfo list \<Rightarrow> bool" where
  "sameColumnInformation rt cols =
     (if cols = [] then True
      else (case columnsBox rt cols of
              Inl e \<Rightarrow> False
            | Inr b \<Rightarrow> map wordsOf (tl (printColumns cols)) = map wordsOf (tl (linesOf b))))"

definition sameContent :: "runtime \<Rightarrow> TableView list \<Rightarrow> mode \<Rightarrow> bool" where
  "sameContent rt views md =
     (case renderTables rt views md of
        Inl e \<Rightarrow> False
      | Inr tree \<Rightarrow>
          hd (renderTables_ts views md) = hd (linesOf tree) \<and>
          list_all (\<lambda>v. wordsOf (tableLine md v) = ''-'' # wordsOf (textOf (tableHeading md v)) \<and>
                        sameColumnInformation rt (columns v)) views)"

text \<open>
  The widths of the name, type and range columns of a table (listTables.tsx 427-429),
  read off the columns of the table.
\<close>

definition nameW :: "ColumnInfo list \<Rightarrow> nat" where
  "nameW cols = maxOf (map (\<lambda>c. length (column_name c)) cols)"

definition typeW :: "ColumnInfo list \<Rightarrow> nat" where
  "typeW cols = maxOf (map (\<lambda>c. labelLength (humanDataType (data_type c))) cols)"

definition rangeW :: "runtime \<Rightarrow> ColumnInfo list \<Rightarrow> nat" where
  "rangeW rt cols =
     maxOf (5 # map (\<lambda>c. case rangeCell rt c of Inl e \<Rightarrow> 0 | Inr rng \<Rightarrow> length rng) cols)"

text \<open>
  The columns the tabular renderer shows: building the row of the column, and its
  line, throws nothing. The type label has to be a string, and a time of day whose
  bounds are looked at has to have both.
\<close>

definition shownInTable :: "ColumnInfo \<Rightarrow> bool" where
  "shownInTable c =
     (toLowerCase (data_type c) \<noteq> ''constructor'' \<and>
      toLowerCase (data_type c) \<noteq> ''__proto__'' \<and>
      (isTemporalDataType (data_type c) \<and> isTimeOnly (data_type c) \<and>
       min_text c \<noteq> Null \<and> max_text c \<noteq> Null \<longrightarrow>
         min_text c \<noteq> Undefined \<and> max_text c \<noteq> Undefined))"

section \<open>Texts of dates and timestamps\<close>

text \<open>
  The texts that \<open>MIN(col)::text\<close> and \<open>MAX(col)::text\<close> (listTables.tsx 240-241) give for
  the values of date and timestamp columns under the ISO date style of PostgreSQL:
  \<open>YYYY-MM-DD\<close>, for a timestamp followed by a space and \<open>HH:MM:SS\<close>, and for a
  timestamp with time zone also by the offset of the session's time zone, written as a
  sign and two digits of hours when it has no minutes (\<open>+00\<close> in UTC).
\<close>

definition twoDigits :: "nat \<Rightarrow> string" where
  "twoDigits n = [digitChar (n div 10), digitChar (n mod 10)]"

definition fourDigits :: "nat \<Rightarrow> string" where
  "fourDigits n = twoDigits (n div 100) @ twoDigits (n mod 100)"

definition dateText :: "nat \<Rightarrow> nat \<Rightarrow> nat \<Rightarrow> string" where
  "dateText y m d = fourDigits y @ ''-'' @ twoDigits m @ ''-'' @ twoDigits d"

definition timeText :: "nat \<Rightarrow> nat \<Rightarrow> nat \<Rightarrow> string" where
  "timeText h mi s = twoDigits h @ '':'' @ twoDigits mi @ '':'' @ twoDigits s"

section \<open>Sample inputs\<close>

text \<open>A host in UTC whose engine reads no date outside the format above.\<close>

definition hostUTC :: runtime where
  "hostUTC = \<lparr>localToUTC = (\<lambda>t. t), parseOtherDate = (\<lambda>s. None)\<rparr>"

text \<open>A table with a numeric and a boolean column, as the view builder hands it on.\<close>

definition sampleView :: TableView where
  "sampleView =
     \<lparr>table_schema = ''public'', table_name = ''t'', column_count = 2,
      columns =
        [\<lparr>column_name = ''id'', data_type = ''integer'', min_text = Str ''1'',
          max_text = Str ''5'', true_count = Null, false_count = Null\<rparr>,
         \<lparr>column_name = ''ok'', data_type = ''boolean'', min_text = Undefined,
          max_text = Undefined, true_count = Str ''3'', false_count = Str ''1''\<rparr>],
      estimated_rows = Some 4, exact_rows = ExactUndefined\<rparr>"

text \<open>A catalog with a table never analysed, an analysed one, a view and a system
  table.\<close>

definition sampleCatalog :: catalog where
  "sampleCatalog =
     \<lparr>pg_class =
        [\<lparr>relname = ''fresh'', relnamespace = 1, relkind = CHR ''r'', reltuples_bigint = - 1\<rparr>,
         \<lparr>relname = ''t'', relnamespace = 1, relkind = CHR ''r'', reltuples_bigint = 4\<rparr>,
         \<lparr>relname = ''v'', relnamespace = 1, relkind = CHR ''v'', reltuples_bigint = 7\<rparr>,
         \<lparr>relname = ''pg_type'', relnamespace = 2, relkind = CHR ''r'', reltuples_bigint = 9\<rparr>],
      pg_namespace = [\<lparr>oid = 1, nspname = ''public''\<rparr>, \<lparr>oid = 2, nspname = ''pg_catalog''\<rparr>],
      information_schema_columns =
        [\<lparr>cr_table_schema = ''public'', cr_table_name = ''t'', cr_column_name = ''id'',
          cr_data_type = ''integer''\<rparr>,
         \<lparr>cr_table_schema = ''public'', cr_table_name = ''t'', cr_column_name = ''ok'',
          cr_data_type = ''boolean''\<rparr>]\<rparr>"

text \<open>A database over that catalog. Of the statistics queries the fourth and the
  seventh query of the connection fail: the first numeric and the first boolean column.\<close>

definition sampleClient :: client where
  "sampleClient =
     \<lparr>connectClient = None,
      tablesQuery = (\<lambda>n. Inr (estimatedTablesStatement sampleCatalog)),
      columnsQuery = (\<lambda>n. Inr (information_schema_columns sampleCatalog)),
      numericColumnsQuery =
        (\<lambda>n. Inr [\<lparr>ref_table_schema = ''public'', ref_table_name = ''t'',
                     ref_column_name = ''secret''\<rparr>,
                   \<lparr>ref_table_schema = ''public'', ref_table_name = ''t'',
                     ref_column_name = ''id''\<rparr>]),
      booleanColumnsQuery =
        (\<lambda>n. Inr [\<lparr>ref_table_schema = ''public'', ref_table_name = ''t'',
                     ref_column_name = ''hidden''\<rparr>,
                   \<lparr>ref_table_schema = ''public'', ref_table_name = ''t'',
                     ref_column_name = ''ok''\<rparr>]),
      rangeQuery =
        (\<lambda>n sql. if n = 3 then Inl (DbError ''permission denied'')
                  else Inr [\<lparr>row_min = Some ''1'', row_max = Some ''5''\<rparr>]),
      histogramQuery =
        (\<lambda>n sql. if n = 6 then Inl (DbError ''permission denied'')
                  else Inr [\<lparr>row_t = ''3'', row_f = ''1''\<rparr>]),
      endClient = None\<rparr>"

text \<open>A database that has no tables.\<close>

definition emptyClient :: client where
  "emptyClient =
     \<lparr>connectClient = None,
      tablesQuery = (\<lambda>n. Inr []),
      columnsQuery = (\<lambda>n. Inr []),
      numericColumnsQuery = (\<lambda>n. Inr []),
      booleanColumnsQuery = (\<lambda>n. Inr []),
      rangeQuery = (\<lambda>n sql. Inr []),
      histogramQuery = (\<lambda>n sql. Inr []),
      endClient = None\<rparr>"

text \<open>A pool whose first count query fails and whose later ones count no rows.\<close>

definition samplePool :: pool where
  "samplePool =
     \<lparr>countQuery = (\<lambda>n sql. if n = 0 then Inl (DbError ''permission denied'')
                             else Inr [\<lparr>row_count = ''0''\<rparr>])\<rparr>"

definition sampleTables :: "TableInfo list" where
  "sampleTables =
     [\<lparr>ti_table_schema = ''public'', ti_table_name = ''locked'', ti_column_count = 2,
       ti_estimated_rows = 10\<rparr>,
      \<lparr>ti_table_schema = ''public'', ti_table_name = ''empty'', ti_column_count = 1,
       ti_estimated_rows = 0\<rparr>]"

section \<open>Properties of the identifier quoter\<close>

lemma replaceAllChar_doubleQuotes: "replaceAllChar dq [dq, dq] s = doubleQuotes s"
  by (induction s) (simp_all add: doubleQuotes_def)

lemma unquoteBody_nonquote:
  "c \<noteq> dq \<Longrightarrow> r \<noteq> [] \<Longrightarrow> unquoteBody (c # r) = map_option ((#) c) (unquoteBody r)"
  by (cases r) simp_all

lemma unquoteBody_doubleQuotes: "unquoteBody (doubleQuotes s @ [dq]) = Some s"
proof (induction s)
  case Nil
  show ?case by (simp add: doubleQuotes_def)
next
  case (Cons c cs)
  show ?case
  proof (cases "c = dq")
    case True
    have "doubleQuotes (c # cs) @ [dq] = dq # dq # (doubleQuotes cs @ [dq])"
      using True by (simp add: doubleQuotes_def)
    then show ?thesis using Cons.IH True by simp
  next
    case False
    have "doubleQuotes (c # cs) @ [dq] = c # (doubleQuotes cs @ [dq])"
      using False by (simp add: doubleQuotes_def)
    then show ?thesis using Cons.IH False by (simp add: unquoteBody_nonquote)
  qed
qed

lemma length_doubleQuotes: "length (doubleQuotes s) = length s + count_list s dq"
  by (induction s) (simp_all add: doubleQuotes_def)

text \<open>
  Claim C2. For every identifier, \<open>quoteIdent\<close> returns the input with every embedded
  double quote doubled, wrapped once in double quotes. The function has no error case:
  the model needs none, and the result is always a string. Reading the result back as a
  quoted identifier gives the input, and the length grows by the number of embedded
  quotes and the two that wrap.
\<close>

theorem quoteIdent_doubles_and_wraps:
  "quoteIdent s = [dq] @ doubleQuotes s @ [dq] \<and>
   unquoteIdent (quoteIdent s) = Some s \<and>
   length (quoteIdent s) = length s + count_list s dq + 2"
  by (simp add: quoteIdent_def replaceAllChar_doubleQuotes unquoteIdent_def
      unquoteBody_doubleQuotes length_doubleQuotes)

text \<open>
  The identifier \<open>a"b\<close> becomes \<open>"a""b"\<close>.
\<close>

theorem quoteIdent_doubles_and_wraps_witness:
  "quoteIdent ''a\"b'' = ''\"a\"\"b\"'' \<and>
   unquoteIdent (quoteIdent ''a\"b'') = Some ''a\"b''"
proof -
  have e: "quoteIdent ''a\"b'' = ''\"a\"\"b\"''" by code_simp
  from quoteIdent_doubles_and_wraps [of "''a\"b''"]
  have u: "unquoteIdent (quoteIdent ''a\"b'') = Some ''a\"b''" by blast
  from e u show ?thesis by (rule conjI)
qed

section \<open>Properties of the percentages\<close>

lemma bigintDiv_nonneg: "0 \<le> a \<Longrightarrow> 0 < b \<Longrightarrow> bigintDiv a b = a div b"
  by (cases "a = 0") (simp_all add: bigintDiv_def)

lemma bigintRem_nonneg: "0 \<le> a \<Longrightarrow> 0 < b \<Longrightarrow> bigintRem a b = a mod b"
  by (simp add: bigintRem_def bigintDiv_nonneg minus_div_mult_eq_mod)

lemma of_char_digitChar: "k < 10 \<Longrightarrow> (of_char (digitChar k) :: nat) = 48 + k"
  by (simp add: digitChar_def)

lemma isDigit_digitChar: "k < 10 \<Longrightarrow> isDigit (digitChar k)"
  by (simp add: isDigit_def of_char_digitChar)

lemma digitValue_digitChar: "k < 10 \<Longrightarrow> digitValue 10 (digitChar k) = Some k"
  by (simp add: digitValue_def of_char_digitChar)

lemma natToString_digits: "list_all isDigit (natToString n) \<and> natToString n \<noteq> []"
proof (induction n rule: natToString.induct)
  case (1 n)
  show ?case
  proof (cases "n < 10")
    case True
    then show ?thesis by (simp add: natToString.simps [of n] isDigit_digitChar)
  next
    case False
    then show ?thesis using 1 by (simp add: natToString.simps [of n] isDigit_digitChar)
  qed
qed

lemma digitsValue_snoc:
  "digitsValue r acc (xs @ [c]) =
     (case digitsValue r acc xs of
        None \<Rightarrow> None
      | Some v \<Rightarrow> map_option (\<lambda>d. v * r + d) (digitValue r c))"
  by (induction xs arbitrary: acc) (auto split: option.splits)

lemma digitsValue_natToString: "digitsValue 10 0 (natToString n) = Some n"
proof (induction n rule: natToString.induct)
  case (1 n)
  show ?case
  proof (cases "n < 10")
    case True
    then show ?thesis by (simp add: natToString.simps [of n] digitValue_digitChar)
  next
    case False
    then have "digitsValue 10 0 (natToString (n div 10)) = Some (n div 10)" using 1 by simp
    then show ?thesis using False
      by (simp add: natToString.simps [of n] digitsValue_snoc digitValue_digitChar)
  qed
qed

lemma parseDigits_natToString: "parseDigits 10 (natToString n) = Some n"
  using natToString_digits [of n] by (simp add: parseDigits_def digitsValue_natToString)

lemma formatPercent_nonneg:
  assumes "0 \<le> n" "0 < d"
  shows "formatPercentOneDecimal n d =
           natToString (nat (((n * 1000 + d div 2) div d) div 10)) @ ''.'' @
           [digitChar (nat (((n * 1000 + d div 2) div d) mod 10))] @ ''%''"
proof -
  let ?p = "(n * 1000 + d div 2) div d"
  have h: "bigintDiv d 2 = d div 2" using assms by (simp add: bigintDiv_nonneg)
  have "0 \<le> n * 1000 + d div 2" using assms by simp
  then have p: "bigintDiv (n * 1000 + d div 2) d = ?p" using assms by (simp add: bigintDiv_nonneg)
  have p0: "0 \<le> ?p" using assms by (simp add: pos_imp_zdiv_nonneg_iff)
  have w: "bigintDiv ?p 10 = ?p div 10" using p0 by (simp add: bigintDiv_nonneg)
  have t: "bigintRem ?p 10 = ?p mod 10" using p0 by (simp add: bigintRem_nonneg)
  have w0: "0 \<le> ?p div 10" using p0 by (simp add: pos_imp_zdiv_nonneg_iff)
  have t0: "0 \<le> ?p mod 10" "?p mod 10 < 10" by simp_all
  have single: "intToString r = [digitChar (nat r)]" if "0 \<le> r" "r < 10" for r :: int
  proof -
    have "nat r < 10" using that by linarith
    then have "natToString (nat r) = [digitChar (nat r)]"
      by (simp add: natToString.simps [of "nat r"])
    then show ?thesis using that(1) by (simp add: intToString_def)
  qed
  have ts: "intToString (?p mod 10) = [digitChar (nat (?p mod 10))]"
    using t0 by (rule single)
  have ws: "intToString (?p div 10) = natToString (nat (?p div 10))"
    using w0 by (simp add: intToString_def)
  show ?thesis using assms
    by (simp add: formatPercentOneDecimal_def h p w t ts ws Let_def)
qed

lemma readPercent_formatPercent:
  assumes "0 \<le> n" "0 < d"
  shows "readPercent (formatPercentOneDecimal n d) = Some (nat ((n * 1000 + d div 2) div d))"
proof -
  let ?p = "(n * 1000 + d div 2) div d"
  have p0: "0 \<le> ?p" using assms by (simp add: pos_imp_zdiv_nonneg_iff)
  have t: "nat (?p mod 10) < 10" by simp
  have "readPercent (formatPercentOneDecimal n d) = Some (nat (?p div 10) * 10 + nat (?p mod 10))"
    using t by (simp add: formatPercent_nonneg [OF assms] readPercent_def
        digitValue_digitChar parseDigits_natToString)
  moreover have "nat (?p div 10) * 10 + nat (?p mod 10) = nat ?p"
    using p0 by (simp add: nat_div_distrib nat_mod_distrib)
  ultimately show ?thesis by simp
qed

lemma isPercentString_formatPercent:
  assumes "0 \<le> n" "0 \<le> d"
  shows "isPercentString (formatPercentOneDecimal n d)"
proof (cases "d = 0")
  case True
  then show ?thesis by (simp add: formatPercentOneDecimal_def isPercentString_def isDigit_def)
next
  case False
  then have d: "0 < d" using assms by simp
  have t: "nat (((n * 1000 + d div 2) div d) mod 10) < 10" by simp
  show ?thesis using natToString_digits isDigit_digitChar [OF t]
    by (simp add: formatPercent_nonneg [OF assms(1) d] isPercentString_def)
qed

lemma permille_sum:
  fixes t f :: int
  assumes "0 \<le> t" "0 \<le> f" "0 < t + f"
  shows "(t * 1000 + (t + f) div 2) div (t + f) + (f * 1000 + (t + f) div 2) div (t + f) = 1000 \<or>
         (t * 1000 + (t + f) div 2) div (t + f) + (f * 1000 + (t + f) div 2) div (t + f) = 1001"
proof -
  define d where "d = t + f"
  define h where "h = d div 2"
  define p where "p = (t * 1000 + h) div d"
  define q where "q = (f * 1000 + h) div d"
  define rp where "rp = (t * 1000 + h) mod d"
  define rq where "rq = (f * 1000 + h) mod d"
  have d: "0 < d" using assms by (simp add: d_def)
  have ep: "t * 1000 + h = p * d + rp" by (simp add: p_def rp_def)
  have eq: "f * 1000 + h = q * d + rq" by (simp add: q_def rq_def)
  have rp: "0 \<le> rp" "rp < d" using d by (simp_all add: rp_def)
  have rq: "0 \<le> rq" "rq < d" using d by (simp_all add: rq_def)
  have h: "2 * h \<le> d" "d - 1 \<le> 2 * h" unfolding h_def by presburger+
  have "(t + f) * 1000 + 2 * h = (p + q) * d + rp + rq" using ep eq by (simp add: algebra_simps)
  then have s: "(p + q - 1000) * d = 2 * h - rp - rq" by (simp add: d_def algebra_simps)
  have lo: "- d < (p + q - 1000) * d" using s rp rq h by linarith
  have hi: "(p + q - 1000) * d \<le> d" using s rp rq h by linarith
  have "-1 < p + q - 1000"
  proof (rule ccontr)
    assume "\<not> -1 < p + q - 1000"
    then have "p + q - 1000 \<le> -1" by simp
    then have "(p + q - 1000) * d \<le> (-1) * d" using d by (intro mult_right_mono) simp_all
    then show False using lo by simp
  qed
  moreover have "p + q - 1000 \<le> 1"
  proof (rule ccontr)
    assume "\<not> p + q - 1000 \<le> 1"
    then have "2 \<le> p + q - 1000" by simp
    then have "2 * d \<le> (p + q - 1000) * d" using d by (intro mult_right_mono) simp_all
    then show False using hi d by simp
  qed
  ultimately have "p + q = 1000 \<or> p + q = 1001" by linarith
  then show ?thesis by (simp add: p_def q_def h_def d_def)
qed

lemma not_ws_digit: "isDigit c \<Longrightarrow> \<not> isStrWhiteSpace c"
  by (auto simp add: isDigit_def isStrWhiteSpace_def)

lemma trimString_digits:
  assumes "list_all isDigit s" "s \<noteq> []"
  shows "trimString s = s"
proof -
  have a: "dropWhile isStrWhiteSpace s = s"
    using assms by (cases s) (simp_all add: not_ws_digit)
  have "rev s \<noteq> []" "list_all isDigit (rev s)" using assms by simp_all
  then have b: "dropWhile isStrWhiteSpace (rev s) = rev s"
    by (cases "rev s") (simp_all add: not_ws_digit)
  show ?thesis by (simp add: trimString_def a b)
qed

lemma isDigit_not_prefix:
  "isDigit c \<Longrightarrow> c \<notin> {CHR ''x'', CHR ''X''} \<and> c \<notin> {CHR ''o'', CHR ''O''} \<and>
     c \<notin> {CHR ''b'', CHR ''B''} \<and> c \<noteq> CHR ''+'' \<and> c \<noteq> CHR ''-''"
  by (auto simp add: isDigit_def)

lemma StringToBigInt_digits:
  assumes "list_all isDigit s" "s \<noteq> []"
  shows "StringToBigInt s = map_option int (parseDigits 10 s)"
proof -
  obtain c rest where s: "s = c # rest" using assms by (cases s) auto
  have c: "c \<noteq> CHR ''+''" "c \<noteq> CHR ''-''"
    using assms s isDigit_not_prefix [of c] by simp_all
  have t: "trimString (c # rest) = c # rest" using trimString_digits [OF assms] s by simp
  have r: "rest \<noteq> [] \<Longrightarrow> isDigit (hd rest)" using assms s by (cases rest) simp_all
  have h: "\<not> (c = CHR ''0'' \<and> rest \<noteq> [] \<and> hd rest \<in> {CHR ''x'', CHR ''X''})"
    "\<not> (c = CHR ''0'' \<and> rest \<noteq> [] \<and> hd rest \<in> {CHR ''o'', CHR ''O''})"
    "\<not> (c = CHR ''0'' \<and> rest \<noteq> [] \<and> hd rest \<in> {CHR ''b'', CHR ''B''})"
    using r isDigit_not_prefix [of "hd rest"] by blast+
  show ?thesis unfolding StringToBigInt_def s t Let_def list.case
    using c h by (simp only: if_False)
qed

lemma StringToBigInt_natToString: "StringToBigInt (natToString n) = Some (int n)"
  using natToString_digits [of n]
  by (simp add: StringToBigInt_digits parseDigits_natToString)

lemma tryBigInt_count: "0 \<le> i \<Longrightarrow> tryBigInt (Str (intToString i)) = i"
  by (simp add: tryBigInt_def intToString_def StringToBigInt_natToString)

text \<open>
  Claim C3. For non-negative counts \<open>t\<close> and \<open>f\<close>, written in decimal as the database
  returns them, \<open>booleanPercents\<close> renders \<open>t\<close> and \<open>f\<close> over the total \<open>t + f\<close>. When the
  total is zero both render as \<open>0.0%\<close>. Otherwise the two rendered values, read in tenths
  of a percent, add up to 1000 or 1001: 100.0% within one decimal.
\<close>

theorem percentages_sum_to_100:
  assumes "0 \<le> t" "0 \<le> f"
  shows "booleanPercents (Str (intToString t)) (Str (intToString f)) =
           (formatPercentOneDecimal t (t + f), formatPercentOneDecimal f (t + f)) \<and>
         (if t + f = 0
          then formatPercentOneDecimal t (t + f) = ''0.0%'' \<and>
               formatPercentOneDecimal f (t + f) = ''0.0%''
          else \<exists>p q. readPercent (formatPercentOneDecimal t (t + f)) = Some p \<and>
                     readPercent (formatPercentOneDecimal f (t + f)) = Some q \<and>
                     (p + q = 1000 \<or> p + q = 1001))"
proof -
  have bp: "booleanPercents (Str (intToString t)) (Str (intToString f)) =
              (formatPercentOneDecimal t (t + f), formatPercentOneDecimal f (t + f))"
    using assms by (simp add: booleanPercents_def tryBigInt_count Let_def)
  show ?thesis
  proof (cases "t + f = 0")
    case True
    then show ?thesis using bp by (simp add: formatPercentOneDecimal_def)
  next
    case False
    then have d: "0 < t + f" using assms by simp
    let ?p = "(t * 1000 + (t + f) div 2) div (t + f)"
    let ?q = "(f * 1000 + (t + f) div 2) div (t + f)"
    have p0: "0 \<le> ?p" and q0: "0 \<le> ?q" using assms d by (simp_all add: pos_imp_zdiv_nonneg_iff)
    have rp: "readPercent (formatPercentOneDecimal t (t + f)) = Some (nat ?p)"
      using assms(1) d by (rule readPercent_formatPercent)
    have rq: "readPercent (formatPercentOneDecimal f (t + f)) = Some (nat ?q)"
      using assms(2) d by (rule readPercent_formatPercent)
    have "?p + ?q = 1000 \<or> ?p + ?q = 1001" using assms d by (rule permille_sum)
    then have "nat ?p + nat ?q = 1000 \<or> nat ?p + nat ?q = 1001" using p0 q0 by linarith
    then show ?thesis using bp rp rq False by simp
  qed
qed

text \<open>
  The counts 28000 and 14000 render as 66.7% and 33.3%; the counts 1 and 1 as 50.0%
  twice; zero and zero as 0.0% twice.
\<close>

theorem percentages_sum_to_100_witness:
  "booleanPercents (Str ''28000'') (Str ''14000'') = (''66.7%'', ''33.3%'') \<and>
   readPercent ''66.7%'' = Some 667 \<and> readPercent ''33.3%'' = Some 333 \<and>
   booleanPercents (Str ''0'') (Str ''0'') = (''0.0%'', ''0.0%'') \<and>
   (\<exists>p q. readPercent (formatPercentOneDecimal 1 (1 + 1)) = Some p \<and>
          readPercent (formatPercentOneDecimal 1 (1 + 1)) = Some q \<and>
          (p + q = 1000 \<or> p + q = 1001))"
proof -
  have a: "booleanPercents (Str ''28000'') (Str ''14000'') = (''66.7%'', ''33.3%'')" by code_simp
  have b: "readPercent ''66.7%'' = Some 667" by code_simp
  have c: "readPercent ''33.3%'' = Some 333" by code_simp
  have d: "booleanPercents (Str ''0'') (Str ''0'') = (''0.0%'', ''0.0%'')" by code_simp
  have e: "\<exists>p q. readPercent (formatPercentOneDecimal 1 (1 + 1)) = Some p \<and>
          readPercent (formatPercentOneDecimal 1 (1 + 1)) = Some q \<and>
          (p + q = 1000 \<or> p + q = 1001)"
    using percentages_sum_to_100 [of 1 1] by simp
  from a b c d e show ?thesis by blast
qed

text \<open>
  Claim C10, as stated, fails: \<open>-1\<close> parses as an integer, and with \<open>3\<close> for the other
  count the first result is \<open>-49.-9%\<close>, which is no well-formed percentage.
\<close>

theorem booleanPercents_negative_count_counterexample:
  "booleanPercents (Str ''-1'') (Str ''3'') = (''-49.-9%'', ''150.0%'') \<and>
   \<not> isPercentString (fst (booleanPercents (Str ''-1'') (Str ''3'')))"
  by code_simp

text \<open>
  Claim C10, amended. A string that does not parse as an integer counts as zero, in
  either position; two such strings give \<open>0.0%\<close> twice; and both results are well-formed
  percentages whenever neither count is negative. The function always returns its pair
  of strings: every throw of \<open>BigInt\<close> is caught, and the divisions that remain cannot
  throw.
\<close>

theorem booleanPercents_malformed_is_zero:
  "(StringToBigInt a = None \<longrightarrow>
      booleanPercents (Str a) y = booleanPercents (Str ''0'') y \<and>
      booleanPercents y (Str a) = booleanPercents y (Str ''0'')) \<and>
   (StringToBigInt a = None \<and> StringToBigInt b = None \<longrightarrow>
      booleanPercents (Str a) (Str b) = (''0.0%'', ''0.0%'')) \<and>
   (0 \<le> tryBigInt (Str a) \<and> 0 \<le> tryBigInt (Str b) \<longrightarrow>
      isPercentString (fst (booleanPercents (Str a) (Str b))) \<and>
      isPercentString (snd (booleanPercents (Str a) (Str b))))"
proof -
  have z: "tryBigInt (Str ''0'') = 0" by code_simp
  have m: "StringToBigInt a = None \<Longrightarrow> tryBigInt (Str a) = 0" for a
    by (simp add: tryBigInt_def)
  have 1: "StringToBigInt a = None \<longrightarrow>
      booleanPercents (Str a) y = booleanPercents (Str ''0'') y \<and>
      booleanPercents y (Str a) = booleanPercents y (Str ''0'')"
    by (simp add: booleanPercents_def m z)
  have 2: "StringToBigInt a = None \<and> StringToBigInt b = None \<longrightarrow>
      booleanPercents (Str a) (Str b) = (''0.0%'', ''0.0%'')"
    by (simp add: booleanPercents_def m formatPercentOneDecimal_def)
  have 3: "0 \<le> tryBigInt (Str a) \<and> 0 \<le> tryBigInt (Str b) \<longrightarrow>
      isPercentString (fst (booleanPercents (Str a) (Str b))) \<and>
      isPercentString (snd (booleanPercents (Str a) (Str b)))"
    by (simp add: booleanPercents_def Let_def isPercentString_formatPercent)
  from 1 2 3 show ?thesis by blast
qed

text \<open>
  The strings \<open>n/a\<close> and \<open>1.5\<close> do not parse; \<open>1\<close> and \<open>2\<close> do.
\<close>

theorem booleanPercents_malformed_is_zero_witness:
  "StringToBigInt ''n/a'' = None \<and> StringToBigInt ''1.5'' = None \<and>
   booleanPercents (Str ''n/a'') (Str ''7'') = booleanPercents (Str ''0'') (Str ''7'') \<and>
   booleanPercents (Str ''n/a'') (Str ''7'') = (''0.0%'', ''100.0%'') \<and>
   booleanPercents (Str ''n/a'') (Str ''1.5'') = (''0.0%'', ''0.0%'') \<and>
   isPercentString (fst (booleanPercents (Str ''1'') (Str ''2''))) \<and>
   booleanPercents (Str ''1'') (Str ''2'') = (''33.3%'', ''66.7%'')"
proof -
  have a: "StringToBigInt ''n/a'' = None" by code_simp
  have b: "StringToBigInt ''1.5'' = None" by code_simp
  have c: "0 \<le> tryBigInt (Str ''1'') \<and> 0 \<le> tryBigInt (Str ''2'')" by code_simp
  have e1: "booleanPercents (Str ''n/a'') (Str ''7'') = (''0.0%'', ''100.0%'')" by code_simp
  have e2: "booleanPercents (Str ''1'') (Str ''2'') = (''33.3%'', ''66.7%'')" by code_simp
  have 1: "booleanPercents (Str ''n/a'') (Str ''7'') = booleanPercents (Str ''0'') (Str ''7'')"
    using booleanPercents_malformed_is_zero [of "''n/a''" "Str ''7''" "''1.5''"] a by blast
  have 2: "booleanPercents (Str ''n/a'') (Str ''1.5'') = (''0.0%'', ''0.0%'')"
    using booleanPercents_malformed_is_zero [of "''n/a''" "Str ''7''" "''1.5''"] a b by blast
  have 3: "isPercentString (fst (booleanPercents (Str ''1'') (Str ''2'')))"
    using booleanPercents_malformed_is_zero [of "''1''" "Str ''7''" "''2''"] c by blast
  from a b 1 e1 2 3 e2 show ?thesis by blast
qed

section \<open>Properties of the type labels\<close>

lemma lowerChar_not_upper: "\<not> isUpper (lowerChar c)"
proof -
  have "(of_char c :: nat) < 256" by simp
  then show ?thesis
    by (auto simp add: isUpper_def lowerChar_def Let_def)
qed

lemma toLowerCase_no_upper: "c \<in> set (toLowerCase s) \<Longrightarrow> \<not> isUpper c"
  by (auto simp add: toLowerCase_def lowerChar_not_upper)

lemma humanDataTypeMap_values_short:
  "list_all (\<lambda>(k, v). length v \<le> 8) humanDataTypeMap"
  by (simp add: humanDataTypeMap_def)

lemma humanDataTypeMap_lookup_short:
  assumes "map_of humanDataTypeMap t = Some v"
  shows "length v \<le> 8"
proof -
  have "(t, v) \<in> set humanDataTypeMap" using assms by (rule map_of_SomeD)
  then show ?thesis using humanDataTypeMap_values_short by (auto simp add: list_all_iff)
qed

lemma objectPrototype_keys_upper:
  "list_all (\<lambda>(k, v). k = ''constructor'' \<or> k = ''__proto__'' \<or> list_ex isUpper k) objectPrototype"
  by code_simp

lemma objectPrototype_lower_keys:
  assumes "map_of objectPrototype t = Some v" "\<forall>c\<in>set t. \<not> isUpper c"
  shows "t = ''constructor'' \<or> t = ''__proto__''"
proof -
  have "(t, v) \<in> set objectPrototype" using assms(1) by (rule map_of_SomeD)
  then have "t = ''constructor'' \<or> t = ''__proto__'' \<or> list_ex isUpper t"
    using objectPrototype_keys_upper unfolding list_all_iff by blast
  then show ?thesis using assms(2) unfolding list_ex_iff by blast
qed

lemma humanDataType_string:
  assumes "toLowerCase dt \<noteq> ''constructor''" "toLowerCase dt \<noteq> ''__proto__''"
  shows "\<exists>s. humanDataType dt = JString s \<and> length s \<le> 8"
proof (cases "map_of humanDataTypeMap (toLowerCase dt)")
  case (Some v)
  then have "length v \<le> 8" by (rule humanDataTypeMap_lookup_short)
  then show ?thesis using Some by (simp add: humanDataType_def getProperty_def)
next
  case None
  have "map_of objectPrototype (toLowerCase dt) = None"
  proof (cases "map_of objectPrototype (toLowerCase dt)")
    case (Some v)
    then have "toLowerCase dt = ''constructor'' \<or> toLowerCase dt = ''__proto__''"
      using toLowerCase_no_upper by (intro objectPrototype_lower_keys) auto
    then show ?thesis using assms by simp
  qed simp
  then show ?thesis using None by (simp add: humanDataType_def getProperty_def Let_def)
qed

text \<open>
  Claim C8 fails on the code at the type names \<open>constructor\<close> and \<open>__proto__\<close> (in any
  letter case): the lookup finds the inherited property, and \<open>humanDataType\<close> returns a
  function, or the prototype object, where the claim has the name cut to 8 characters.
  For every other type name the label is a string of at most 8 characters
  (\<open>humanDataType_string\<close> above).
\<close>

theorem humanDataType_inherited_property:
  "humanDataType ''constructor'' = JFunction 1 \<and>
   humanDataType ''__proto__'' = JObjectPrototype \<and>
   (\<forall>s. humanDataType ''constructor'' \<noteq> JString s)"
proof -
  have a: "humanDataType ''constructor'' = JFunction 1" by code_simp
  have b: "humanDataType ''__proto__'' = JObjectPrototype" by code_simp
  show ?thesis by (simp add: a b)
qed

section \<open>The text of a table heading\<close>

lemma textOf_tableHeading:
  "textOf (tableHeading md v) =
     table_schema v @ ''.'' @ table_name v @ '' '' @ emDash @ '' '' @ countLabelFor md v @
     '' rows, '' @ intToString (column_count v) @ '' cols''"
  by (simp add: tableHeading_def)

lemma linesOf_tableHeading: "linesOf (tableHeading md v) = [textOf (tableHeading md v)]"
  by (simp add: tableHeading_def)

lemma tableLine_heading:
  "tableLine md v = newline @ ''- '' @ textOf (tableHeading md v) @ newline"
  by (simp add: tableLine_def textOf_tableHeading)

section \<open>Properties of the row counter\<close>

lemma exactViews_length: "length (exactViews pl n ts cbt) = length ts"
  by (induction ts arbitrary: n) simp_all

lemma exactViews_nth:
  "i < length ts \<Longrightarrow>
     exactViews pl n ts cbt ! i =
       \<lparr>table_schema = ti_table_schema (ts ! i),
        table_name = ti_table_name (ts ! i),
        column_count = ti_column_count (ts ! i),
        columns = (case cbt (tableKey (ti_table_schema (ts ! i)) (ti_table_name (ts ! i))) of
                     None \<Rightarrow> [] | Some cs \<Rightarrow> cs),
        estimated_rows = None,
        exact_rows = exactOf (countQuery pl (n + i) (countSql (ts ! i)))\<rparr>"
proof (induction ts arbitrary: n i)
  case Nil
  then show ?case by simp
next
  case (Cons t ts)
  show ?case
  proof (cases i)
    case 0
    then show ?thesis by simp
  next
    case (Suc j)
    then have "j < length ts" using Cons.prems by simp
    then show ?thesis using Cons.IH [of j "Suc n"] Suc by simp
  qed
qed

lemma natToString_not_error: "natToString n \<noteq> ''error''"
proof
  assume "natToString n = ''error''"
  then have "isDigit CHR ''e''" using natToString_digits [of n] by simp
  then show False by (simp add: isDigit_def)
qed

lemma intToString_not_error: "intToString i \<noteq> ''error''"
  using natToString_not_error by (simp add: intToString_def)

text \<open>
  Claim C4. In exact mode the count query of table \<open>i\<close> is the \<open>i\<close>-th query of the pool.
  When it fails, the view holds \<open>null\<close> and the row count renders as \<open>error\<close>; a count
  that comes back as \<open>0\<close> renders as \<open>0\<close>. The label \<open>error\<close> stands for \<open>null\<close> and for
  nothing else, so no count, zero included, renders as a failure and no failure as a
  count. The label is what the heading of the table shows before \<open>rows\<close>.
\<close>

theorem failed_exact_count_renders_error:
  assumes "i < length estimated"
  shows "(countQuery pl i (countSql (estimated ! i)) = Inl e \<longrightarrow>
            exact_rows (buildExactView pl estimated cbt ! i) = ExactNull \<and>
            countLabelFor ExactMode (buildExactView pl estimated cbt ! i) = ''error'') \<and>
         (countQuery pl i (countSql (estimated ! i)) = Inr [\<lparr>row_count = ''0''\<rparr>] \<longrightarrow>
            exact_rows (buildExactView pl estimated cbt ! i) = Exact 0 \<and>
            countLabelFor ExactMode (buildExactView pl estimated cbt ! i) = ''0'') \<and>
         (countLabelFor ExactMode (buildExactView pl estimated cbt ! i) = ''error'' \<longleftrightarrow>
            exact_rows (buildExactView pl estimated cbt ! i) = ExactNull) \<and>
         textOf (tableHeading ExactMode (buildExactView pl estimated cbt ! i)) =
           ti_table_schema (estimated ! i) @ ''.'' @ ti_table_name (estimated ! i) @ '' '' @
           emDash @ '' '' @ countLabelFor ExactMode (buildExactView pl estimated cbt ! i) @
           '' rows, '' @ intToString (ti_column_count (estimated ! i)) @ '' cols''"
proof -
  let ?v = "buildExactView pl estimated cbt ! i"
  have v: "?v = \<lparr>table_schema = ti_table_schema (estimated ! i),
        table_name = ti_table_name (estimated ! i),
        column_count = ti_column_count (estimated ! i),
        columns = (case cbt (tableKey (ti_table_schema (estimated ! i)) (ti_table_name (estimated ! i))) of
                     None \<Rightarrow> [] | Some cs \<Rightarrow> cs),
        estimated_rows = None,
        exact_rows = exactOf (countQuery pl i (countSql (estimated ! i)))\<rparr>"
    using exactViews_nth [OF assms, of pl 0 cbt] by (simp add: buildExactView_def)
  have z: "StringToBigInt ''0'' = Some 0" by code_simp
  have z': "intToString 0 = ''0''" by code_simp
  have 1: "countQuery pl i (countSql (estimated ! i)) = Inl e \<longrightarrow>
            exact_rows ?v = ExactNull \<and> countLabelFor ExactMode ?v = ''error''"
    by (simp add: v exactOf_def countLabelFor_def)
  have 2: "countQuery pl i (countSql (estimated ! i)) = Inr [\<lparr>row_count = ''0''\<rparr>] \<longrightarrow>
            exact_rows ?v = Exact 0 \<and> countLabelFor ExactMode ?v = ''0''"
    by (simp add: v exactOf_def countLabelFor_def z z')
  have 3: "countLabelFor ExactMode ?v = ''error'' \<longleftrightarrow> exact_rows ?v = ExactNull"
    using intToString_not_error
    by (cases "exact_rows ?v") (simp_all add: countLabelFor_def)
  have 4: "textOf (tableHeading ExactMode ?v) =
           ti_table_schema (estimated ! i) @ ''.'' @ ti_table_name (estimated ! i) @ '' '' @
           emDash @ '' '' @ countLabelFor ExactMode ?v @
           '' rows, '' @ intToString (ti_column_count (estimated ! i)) @ '' cols''"
    unfolding textOf_tableHeading by (simp add: v)
  from 1 2 3 4 show ?thesis by blast
qed

text \<open>
  Of two tables, the count of the first fails and the second is empty: the first shows
  \<open>error\<close>, the second \<open>0\<close>.
\<close>

theorem failed_exact_count_renders_error_witness:
  "0 < length sampleTables \<and>
   countQuery samplePool 0 (countSql (sampleTables ! 0)) = Inl (DbError ''permission denied'') \<and>
   countLabelFor ExactMode (buildExactView samplePool sampleTables Map.empty ! 0) = ''error'' \<and>
   1 < length sampleTables \<and>
   countQuery samplePool 1 (countSql (sampleTables ! 1)) = Inr [\<lparr>row_count = ''0''\<rparr>] \<and>
   countLabelFor ExactMode (buildExactView samplePool sampleTables Map.empty ! 1) = ''0''"
proof -
  have l: "0 < length sampleTables" "1 < length sampleTables"
    by (simp_all add: sampleTables_def)
  have q0: "countQuery samplePool 0 (countSql (sampleTables ! 0)) = Inl (DbError ''permission denied'')"
    by (simp add: samplePool_def)
  have q1: "countQuery samplePool 1 (countSql (sampleTables ! 1)) = Inr [\<lparr>row_count = ''0''\<rparr>]"
    by (simp add: samplePool_def)
  have a: "countLabelFor ExactMode (buildExactView samplePool sampleTables Map.empty ! 0) = ''error''"
    using failed_exact_count_renders_error [OF l(1), of samplePool "DbError ''permission denied''" Map.empty]
      q0 by blast
  have b: "countLabelFor ExactMode (buildExactView samplePool sampleTables Map.empty ! 1) = ''0''"
    using failed_exact_count_renders_error [OF l(2), of samplePool "DbError ''permission denied''" Map.empty]
      q1 by blast
  from l q0 a q1 b show ?thesis by blast
qed

section \<open>Properties of the catalog reader\<close>

lemma set_estimatedTablesStatement:
  "t \<in> set (estimatedTablesStatement cat) \<Longrightarrow>
     \<exists>c\<in>set (pg_class cat). \<exists>n\<in>set (pg_namespace cat).
        oid n = relnamespace c \<and> relkind c = CHR ''r'' \<and>
        nspname n \<noteq> ''pg_catalog'' \<and> nspname n \<noteq> ''information_schema'' \<and>
        ti_table_schema t = nspname n \<and> ti_table_name t = relname c \<and>
        ti_estimated_rows t = max (reltuples_bigint c) 0"
  by (fastforce simp add: estimatedTablesStatement_def split: if_splits)

text \<open>
  Claim C5. When the database answers the statement of \<open>fetchEstimatedTables\<close> by its
  meaning over the catalog, every table descriptor has a non-negative estimate, which is
  the estimate of its \<open>pg_class\<close> row or zero when that is negative, and every view
  built from the descriptors carries a non-negative estimate.
\<close>

theorem estimated_rows_clamped:
  assumes "tablesQuery cl n = Inr (estimatedTablesStatement cat)"
  shows "\<exists>ts. fst (fetchEstimatedTables cl n) = Inr ts \<and>
           (\<forall>t\<in>set ts. 0 \<le> ti_estimated_rows t \<and>
              (\<exists>c\<in>set (pg_class cat). ti_table_name t = relname c \<and>
                 ti_estimated_rows t = max (reltuples_bigint c) 0)) \<and>
           (\<forall>v\<in>set (buildEstimatedView ts cbt). \<exists>r. estimated_rows v = Some r \<and> 0 \<le> r)"
proof -
  let ?ts = "estimatedTablesStatement cat"
  have a: "fst (fetchEstimatedTables cl n) = Inr ?ts"
    using assms by (simp add: fetchEstimatedTables_def)
  have b: "0 \<le> ti_estimated_rows t \<and>
              (\<exists>c\<in>set (pg_class cat). ti_table_name t = relname c \<and>
                 ti_estimated_rows t = max (reltuples_bigint c) 0)" if "t \<in> set ?ts" for t
    using set_estimatedTablesStatement [OF that] by auto
  have c: "\<exists>r. estimated_rows v = Some r \<and> 0 \<le> r"
    if "v \<in> set (buildEstimatedView ?ts cbt)" for v
    using that b by (auto simp add: buildEstimatedView_def)
  from a b c show ?thesis by blast
qed

text \<open>
  In the sample catalog the table \<open>fresh\<close> was never analysed and has the estimate -1;
  its descriptor has 0.
\<close>

theorem estimated_rows_clamped_witness:
  "tablesQuery sampleClient 0 = Inr (estimatedTablesStatement sampleCatalog) \<and>
   map ti_estimated_rows (estimatedTablesStatement sampleCatalog) = [0, 4] \<and>
   map ti_table_name (estimatedTablesStatement sampleCatalog) = [''fresh'', ''t''] \<and>
   (\<exists>ts. fst (fetchEstimatedTables sampleClient 0) = Inr ts \<and>
      (\<forall>t\<in>set ts. 0 \<le> ti_estimated_rows t) \<and>
      (\<forall>v\<in>set (buildEstimatedView ts Map.empty). \<exists>r. estimated_rows v = Some r \<and> 0 \<le> r))"
proof -
  have h: "tablesQuery sampleClient 0 = Inr (estimatedTablesStatement sampleCatalog)"
    by (simp add: sampleClient_def)
  have e: "map ti_estimated_rows (estimatedTablesStatement sampleCatalog) = [0, 4]"
    by code_simp
  have n: "map ti_table_name (estimatedTablesStatement sampleCatalog) = [''fresh'', ''t'']"
    by code_simp
  have c: "\<exists>ts. fst (fetchEstimatedTables sampleClient 0) = Inr ts \<and>
      (\<forall>t\<in>set ts. 0 \<le> ti_estimated_rows t) \<and>
      (\<forall>v\<in>set (buildEstimatedView ts Map.empty). \<exists>r. estimated_rows v = Some r \<and> 0 \<le> r)"
    using estimated_rows_clamped [OF h, of Map.empty] by blast
  from h e n c show ?thesis by blast
qed

section \<open>Properties of the statistics collector\<close>

lemma rangesLoop_closed:
  "rangesLoop cl n cols acc =
     (rev (map (\<lambda>(i, c). (columnKey c, rangeOf (rangeQuery cl i (rangeSql c))))
             (zip [n..<n + length cols] cols)) @ acc,
      n + length cols)"
proof (induction cols arbitrary: n acc)
  case Nil
  show ?case by simp
next
  case (Cons c cs)
  have "[n..<Suc (n + length cs)] = n # [Suc n..<Suc (n + length cs)]"
    by (rule upt_conv_Cons) simp
  then have u: "[n..<n + length (c # cs)] = n # [Suc n..<Suc n + length cs]" by simp
  show ?case unfolding u by (simp add: Cons.IH mapSet_def)
qed

lemma histogramsLoop_closed:
  "histogramsLoop cl n cols acc =
     (rev (map (\<lambda>(i, c). (columnKey c, histogramOf (histogramQuery cl i (histogramSql c))))
             (zip [n..<n + length cols] cols)) @ acc,
      n + length cols)"
proof (induction cols arbitrary: n acc)
  case Nil
  show ?case by simp
next
  case (Cons c cs)
  have "[n..<Suc (n + length cs)] = n # [Suc n..<Suc (n + length cs)]"
    by (rule upt_conv_Cons) simp
  then have u: "[n..<n + length (c # cs)] = n # [Suc n..<Suc n + length cs]" by simp
  show ?case unfolding u by (simp add: Cons.IH mapSet_def)
qed

lemma map_of_rev_newest:
  assumes "i < length ws" "ws ! i = (k, v)"
    and "\<forall>j. i < j \<and> j < length ws \<longrightarrow> fst (ws ! j) \<noteq> k"
  shows "map_of (rev ws) k = Some v"
  using assms
proof (induction ws rule: rev_induct)
  case Nil
  then show ?case by simp
next
  case (snoc w ws)
  show ?case
  proof (cases "i = length ws")
    case True
    then show ?thesis using snoc.prems(2) by simp
  next
    case False
    then have i: "i < length ws" using snoc.prems(1) by simp
    have "i < length ws \<and> length ws < length (ws @ [w]) \<longrightarrow> fst ((ws @ [w]) ! length ws) \<noteq> k"
      using snoc.prems(3) by blast
    then have w: "fst w \<noteq> k" using i by simp
    have a: "ws ! i = (k, v)" using snoc.prems(2) i by (simp add: nth_append)
    have b: "\<forall>j. i < j \<and> j < length ws \<longrightarrow> fst (ws ! j) \<noteq> k"
    proof (intro allI impI)
      fix j assume j: "i < j \<and> j < length ws"
      then have "fst ((ws @ [w]) ! j) \<noteq> k" using snoc.prems(3) by simp
      then show "fst (ws ! j) \<noteq> k" using j by (simp add: nth_append)
    qed
    have "map_of (rev ws) k = Some v" using snoc.IH [OF i a b] .
    then show ?thesis using w by (cases w) simp
  qed
qed

lemma fetchNumericRanges_writes:
  assumes "numericColumnsQuery cl n = Inr cols"
  shows "\<exists>ranges. fetchNumericRanges cl n = (Inr ranges, Suc n + length cols) \<and>
           rev ranges = map (\<lambda>(i, c). (columnKey c, rangeOf (rangeQuery cl i (rangeSql c))))
                          (zip [Suc n..<Suc n + length cols] cols)"
  using assms by (simp add: fetchNumericRanges_def rangesLoop_closed)

lemma fetchBooleanHistograms_writes:
  assumes "booleanColumnsQuery cl n = Inr cols"
  shows "\<exists>hist. fetchBooleanHistograms cl n = (Inr hist, Suc n + length cols) \<and>
           rev hist = map (\<lambda>(i, c). (columnKey c, histogramOf (histogramQuery cl i (histogramSql c))))
                          (zip [Suc n..<Suc n + length cols] cols)"
  using assms by (simp add: fetchBooleanHistograms_def histogramsLoop_closed)

lemma zip_upt_length: "length (zip [a..<a + length xs] xs) = length xs"
  by simp

lemma writes_nth:
  assumes "i < length cols"
  shows "map (\<lambda>(i, c). (k c, f i c)) (zip [n..<n + length cols] cols) ! i = (k (cols ! i), f (n + i) (cols ! i))"
  using assms by simp

text \<open>
  Claim C6. Once the list of numeric and temporal columns has arrived, the collector
  returns its map whatever the per-column queries do, and has asked one query for each
  column, in order. The \<open>i\<close>-th write of the map is the statistics of the \<open>i\<close>-th column:
  \<open>null\<close> minimum and maximum when its query failed, and what its own query gave
  otherwise, untouched by the failures of others. \<open>get\<close> finds these statistics under the
  column's key, unless a later column is written under the same key. The same holds for
  the boolean columns and their counts.
\<close>

theorem column_statistics_failure_is_isolated:
  "(numericColumnsQuery cl n = Inr cols \<longrightarrow>
      (\<exists>ranges. fetchNumericRanges cl n = (Inr ranges, Suc n + length cols) \<and>
         length ranges = length cols \<and>
         (\<forall>i<length cols.
            rev ranges ! i =
              (columnKey (cols ! i), rangeOf (rangeQuery cl (Suc n + i) (rangeSql (cols ! i)))) \<and>
            ((\<exists>e. rangeQuery cl (Suc n + i) (rangeSql (cols ! i)) = Inl e) \<longrightarrow>
               rev ranges ! i = (columnKey (cols ! i), \<lparr>range_min = None, range_max = None\<rparr>)) \<and>
            ((\<forall>j. i < j \<and> j < length cols \<longrightarrow> columnKey (cols ! j) \<noteq> columnKey (cols ! i)) \<longrightarrow>
               mapGet ranges (columnKey (cols ! i)) =
                 Some (rangeOf (rangeQuery cl (Suc n + i) (rangeSql (cols ! i)))))))) \<and>
   (booleanColumnsQuery cl m = Inr bcols \<longrightarrow>
      (\<exists>hist. fetchBooleanHistograms cl m = (Inr hist, Suc m + length bcols) \<and>
         length hist = length bcols \<and>
         (\<forall>i<length bcols.
            rev hist ! i =
              (columnKey (bcols ! i),
               histogramOf (histogramQuery cl (Suc m + i) (histogramSql (bcols ! i)))) \<and>
            ((\<exists>e. histogramQuery cl (Suc m + i) (histogramSql (bcols ! i)) = Inl e) \<longrightarrow>
               rev hist ! i = (columnKey (bcols ! i), \<lparr>hist_true = None, hist_false = None\<rparr>)) \<and>
            ((\<forall>j. i < j \<and> j < length bcols \<longrightarrow> columnKey (bcols ! j) \<noteq> columnKey (bcols ! i)) \<longrightarrow>
               mapGet hist (columnKey (bcols ! i)) =
                 Some (histogramOf (histogramQuery cl (Suc m + i) (histogramSql (bcols ! i))))))))"
proof (intro conjI impI)
  assume a: "numericColumnsQuery cl n = Inr cols"
  let ?w = "map (\<lambda>(i, c). (columnKey c, rangeOf (rangeQuery cl i (rangeSql c))))
              (zip [Suc n..<Suc n + length cols] cols)"
  obtain ranges where r: "fetchNumericRanges cl n = (Inr ranges, Suc n + length cols)"
    and w: "rev ranges = ?w"
    using fetchNumericRanges_writes [OF a] by blast
  have len: "length ranges = length cols"
  proof -
    have "length (rev ranges) = length ?w" using w by simp
    then show ?thesis by (simp only: length_rev length_map zip_upt_length)
  qed
  have nth: "rev ranges ! i =
      (columnKey (cols ! i), rangeOf (rangeQuery cl (Suc n + i) (rangeSql (cols ! i))))"
    if "i < length cols" for i
    unfolding w
    using writes_nth [OF that, where k = columnKey and n = "Suc n"
        and f = "\<lambda>i c. rangeOf (rangeQuery cl i (rangeSql c))"]
    by simp
  have failed: "rev ranges ! i = (columnKey (cols ! i), \<lparr>range_min = None, range_max = None\<rparr>)"
    if "i < length cols" "\<exists>e. rangeQuery cl (Suc n + i) (rangeSql (cols ! i)) = Inl e" for i
    using nth [OF that(1)] that(2) by (auto simp add: rangeOf_def)
  have get: "mapGet ranges (columnKey (cols ! i)) =
                 Some (rangeOf (rangeQuery cl (Suc n + i) (rangeSql (cols ! i))))"
    if i: "i < length cols"
      and d: "\<forall>j. i < j \<and> j < length cols \<longrightarrow> columnKey (cols ! j) \<noteq> columnKey (cols ! i)" for i
  proof -
    have 1: "i < length (rev ranges)" using i len by simp
    have 2: "\<forall>j. i < j \<and> j < length (rev ranges) \<longrightarrow> fst (rev ranges ! j) \<noteq> columnKey (cols ! i)"
      using d nth len by simp
    have "map_of (rev (rev ranges)) (columnKey (cols ! i)) =
            Some (rangeOf (rangeQuery cl (Suc n + i) (rangeSql (cols ! i))))"
      using 1 nth [OF i] 2 by (rule map_of_rev_newest)
    then show ?thesis by (simp add: mapGet_def)
  qed
  show "\<exists>ranges. fetchNumericRanges cl n = (Inr ranges, Suc n + length cols) \<and>
         length ranges = length cols \<and>
         (\<forall>i<length cols.
            rev ranges ! i =
              (columnKey (cols ! i), rangeOf (rangeQuery cl (Suc n + i) (rangeSql (cols ! i)))) \<and>
            ((\<exists>e. rangeQuery cl (Suc n + i) (rangeSql (cols ! i)) = Inl e) \<longrightarrow>
               rev ranges ! i = (columnKey (cols ! i), \<lparr>range_min = None, range_max = None\<rparr>)) \<and>
            ((\<forall>j. i < j \<and> j < length cols \<longrightarrow> columnKey (cols ! j) \<noteq> columnKey (cols ! i)) \<longrightarrow>
               mapGet ranges (columnKey (cols ! i)) =
                 Some (rangeOf (rangeQuery cl (Suc n + i) (rangeSql (cols ! i))))))"
    using r len nth failed get by blast
next
  assume a: "booleanColumnsQuery cl m = Inr bcols"
  let ?w = "map (\<lambda>(i, c). (columnKey c, histogramOf (histogramQuery cl i (histogramSql c))))
              (zip [Suc m..<Suc m + length bcols] bcols)"
  obtain hist where r: "fetchBooleanHistograms cl m = (Inr hist, Suc m + length bcols)"
    and w: "rev hist = ?w"
    using fetchBooleanHistograms_writes [OF a] by blast
  have len: "length hist = length bcols"
  proof -
    have "length (rev hist) = length ?w" using w by simp
    then show ?thesis by (simp only: length_rev length_map zip_upt_length)
  qed
  have nth: "rev hist ! i =
      (columnKey (bcols ! i), histogramOf (histogramQuery cl (Suc m + i) (histogramSql (bcols ! i))))"
    if "i < length bcols" for i
    unfolding w
    using writes_nth [OF that, where k = columnKey and n = "Suc m"
        and f = "\<lambda>i c. histogramOf (histogramQuery cl i (histogramSql c))"]
    by simp
  have failed: "rev hist ! i = (columnKey (bcols ! i), \<lparr>hist_true = None, hist_false = None\<rparr>)"
    if "i < length bcols" "\<exists>e. histogramQuery cl (Suc m + i) (histogramSql (bcols ! i)) = Inl e" for i
    using nth [OF that(1)] that(2) by (auto simp add: histogramOf_def)
  have get: "mapGet hist (columnKey (bcols ! i)) =
                 Some (histogramOf (histogramQuery cl (Suc m + i) (histogramSql (bcols ! i))))"
    if i: "i < length bcols"
      and d: "\<forall>j. i < j \<and> j < length bcols \<longrightarrow> columnKey (bcols ! j) \<noteq> columnKey (bcols ! i)" for i
  proof -
    have 1: "i < length (rev hist)" using i len by simp
    have 2: "\<forall>j. i < j \<and> j < length (rev hist) \<longrightarrow> fst (rev hist ! j) \<noteq> columnKey (bcols ! i)"
      using d nth len by simp
    have "map_of (rev (rev hist)) (columnKey (bcols ! i)) =
            Some (histogramOf (histogramQuery cl (Suc m + i) (histogramSql (bcols ! i))))"
      using 1 nth [OF i] 2 by (rule map_of_rev_newest)
    then show ?thesis by (simp add: mapGet_def)
  qed
  show "\<exists>hist. fetchBooleanHistograms cl m = (Inr hist, Suc m + length bcols) \<and>
         length hist = length bcols \<and>
         (\<forall>i<length bcols.
            rev hist ! i =
              (columnKey (bcols ! i),
               histogramOf (histogramQuery cl (Suc m + i) (histogramSql (bcols ! i)))) \<and>
            ((\<exists>e. histogramQuery cl (Suc m + i) (histogramSql (bcols ! i)) = Inl e) \<longrightarrow>
               rev hist ! i = (columnKey (bcols ! i), \<lparr>hist_true = None, hist_false = None\<rparr>)) \<and>
            ((\<forall>j. i < j \<and> j < length bcols \<longrightarrow> columnKey (bcols ! j) \<noteq> columnKey (bcols ! i)) \<longrightarrow>
               mapGet hist (columnKey (bcols ! i)) =
                 Some (histogramOf (histogramQuery cl (Suc m + i) (histogramSql (bcols ! i))))))"
    using r len nth failed get by blast
qed

text \<open>
  In the sample database the queries of the columns \<open>secret\<close> and \<open>hidden\<close> fail. Both
  are recorded without statistics, and the columns after them with theirs.
\<close>

theorem column_statistics_failure_is_isolated_witness:
  "numericColumnsQuery sampleClient 2 =
     Inr [\<lparr>ref_table_schema = ''public'', ref_table_name = ''t'', ref_column_name = ''secret''\<rparr>,
          \<lparr>ref_table_schema = ''public'', ref_table_name = ''t'', ref_column_name = ''id''\<rparr>] \<and>
   fetchNumericRanges sampleClient 2 =
     (Inr [(''public.t.id'', \<lparr>range_min = Some ''1'', range_max = Some ''5''\<rparr>),
           (''public.t.secret'', \<lparr>range_min = None, range_max = None\<rparr>)], 5) \<and>
   fetchBooleanHistograms sampleClient 5 =
     (Inr [(''public.t.ok'', \<lparr>hist_true = Some ''3'', hist_false = Some ''1''\<rparr>),
           (''public.t.hidden'', \<lparr>hist_true = None, hist_false = None\<rparr>)], 8) \<and>
   (\<exists>ranges. fetchNumericRanges sampleClient 2 = (Inr ranges, 5) \<and>
      rev ranges ! 0 = (''public.t.secret'', \<lparr>range_min = None, range_max = None\<rparr>) \<and>
      mapGet ranges ''public.t.id'' = Some \<lparr>range_min = Some ''1'', range_max = Some ''5''\<rparr>) \<and>
   (\<exists>hist. fetchBooleanHistograms sampleClient 5 = (Inr hist, 8) \<and>
      rev hist ! 0 = (''public.t.hidden'', \<lparr>hist_true = None, hist_false = None\<rparr>) \<and>
      mapGet hist ''public.t.ok'' = Some \<lparr>hist_true = Some ''3'', hist_false = Some ''1''\<rparr>)"
proof -
  let ?cols = "[\<lparr>ref_table_schema = ''public'', ref_table_name = ''t'', ref_column_name = ''secret''\<rparr>,
          \<lparr>ref_table_schema = ''public'', ref_table_name = ''t'', ref_column_name = ''id''\<rparr>]"
  let ?bcols = "[\<lparr>ref_table_schema = ''public'', ref_table_name = ''t'', ref_column_name = ''hidden''\<rparr>,
          \<lparr>ref_table_schema = ''public'', ref_table_name = ''t'', ref_column_name = ''ok''\<rparr>]"
  have h: "numericColumnsQuery sampleClient 2 = Inr ?cols" by (simp add: sampleClient_def)
  have hb: "booleanColumnsQuery sampleClient 5 = Inr ?bcols" by (simp add: sampleClient_def)
  have e1: "fetchNumericRanges sampleClient 2 =
     (Inr [(''public.t.id'', \<lparr>range_min = Some ''1'', range_max = Some ''5''\<rparr>),
           (''public.t.secret'', \<lparr>range_min = None, range_max = None\<rparr>)], 5)"
    by code_simp
  have e2: "fetchBooleanHistograms sampleClient 5 =
     (Inr [(''public.t.ok'', \<lparr>hist_true = Some ''3'', hist_false = Some ''1''\<rparr>),
           (''public.t.hidden'', \<lparr>hist_true = None, hist_false = None\<rparr>)], 8)"
    by code_simp
  note T = column_statistics_failure_is_isolated [of sampleClient 2 ?cols 5 ?bcols]
  from T h obtain ranges where r: "fetchNumericRanges sampleClient 2 = (Inr ranges, Suc 2 + length ?cols)"
    and ri: "\<forall>i<length ?cols.
            rev ranges ! i =
              (columnKey (?cols ! i), rangeOf (rangeQuery sampleClient (Suc 2 + i) (rangeSql (?cols ! i)))) \<and>
            ((\<exists>e. rangeQuery sampleClient (Suc 2 + i) (rangeSql (?cols ! i)) = Inl e) \<longrightarrow>
               rev ranges ! i = (columnKey (?cols ! i), \<lparr>range_min = None, range_max = None\<rparr>)) \<and>
            ((\<forall>j. i < j \<and> j < length ?cols \<longrightarrow> columnKey (?cols ! j) \<noteq> columnKey (?cols ! i)) \<longrightarrow>
               mapGet ranges (columnKey (?cols ! i)) =
                 Some (rangeOf (rangeQuery sampleClient (Suc 2 + i) (rangeSql (?cols ! i)))))"
    by blast
  have r0: "rev ranges ! 0 = (''public.t.secret'', \<lparr>range_min = None, range_max = None\<rparr>)"
  proof -
    have "\<exists>e. rangeQuery sampleClient (Suc 2 + 0) (rangeSql (?cols ! 0)) = Inl e"
      by (simp add: sampleClient_def)
    moreover have "(0::nat) < length ?cols" by simp
    ultimately have "rev ranges ! 0 = (columnKey (?cols ! 0), \<lparr>range_min = None, range_max = None\<rparr>)"
      using ri by blast
    then show ?thesis by (simp add: columnKey_def)
  qed
  have r1: "mapGet ranges ''public.t.id'' = Some \<lparr>range_min = Some ''1'', range_max = Some ''5''\<rparr>"
  proof -
    have "\<forall>j. 1 < j \<and> j < length ?cols \<longrightarrow> columnKey (?cols ! j) \<noteq> columnKey (?cols ! 1)"
      by simp
    moreover have "(1::nat) < length ?cols" by simp
    ultimately have "mapGet ranges (columnKey (?cols ! 1)) =
                 Some (rangeOf (rangeQuery sampleClient (Suc 2 + 1) (rangeSql (?cols ! 1))))"
      using ri by blast
    then show ?thesis by (simp add: columnKey_def sampleClient_def rangeOf_def)
  qed
  from T hb obtain hist where b: "fetchBooleanHistograms sampleClient 5 = (Inr hist, Suc 5 + length ?bcols)"
    and bi: "\<forall>i<length ?bcols.
            rev hist ! i =
              (columnKey (?bcols ! i),
               histogramOf (histogramQuery sampleClient (Suc 5 + i) (histogramSql (?bcols ! i)))) \<and>
            ((\<exists>e. histogramQuery sampleClient (Suc 5 + i) (histogramSql (?bcols ! i)) = Inl e) \<longrightarrow>
               rev hist ! i = (columnKey (?bcols ! i), \<lparr>hist_true = None, hist_false = None\<rparr>)) \<and>
            ((\<forall>j. i < j \<and> j < length ?bcols \<longrightarrow> columnKey (?bcols ! j) \<noteq> columnKey (?bcols ! i)) \<longrightarrow>
               mapGet hist (columnKey (?bcols ! i)) =
                 Some (histogramOf (histogramQuery sampleClient (Suc 5 + i) (histogramSql (?bcols ! i)))))"
    by blast
  have b0: "rev hist ! 0 = (''public.t.hidden'', \<lparr>hist_true = None, hist_false = None\<rparr>)"
  proof -
    have "\<exists>e. histogramQuery sampleClient (Suc 5 + 0) (histogramSql (?bcols ! 0)) = Inl e"
      by (simp add: sampleClient_def)
    moreover have "(0::nat) < length ?bcols" by simp
    ultimately have "rev hist ! 0 = (columnKey (?bcols ! 0), \<lparr>hist_true = None, hist_false = None\<rparr>)"
      using bi by blast
    then show ?thesis by (simp add: columnKey_def)
  qed
  have b1: "mapGet hist ''public.t.ok'' = Some \<lparr>hist_true = Some ''3'', hist_false = Some ''1''\<rparr>"
  proof -
    have "\<forall>j. 1 < j \<and> j < length ?bcols \<longrightarrow> columnKey (?bcols ! j) \<noteq> columnKey (?bcols ! 1)"
      by simp
    moreover have "(1::nat) < length ?bcols" by simp
    ultimately have "mapGet hist (columnKey (?bcols ! 1)) =
                 Some (histogramOf (histogramQuery sampleClient (Suc 5 + 1) (histogramSql (?bcols ! 1))))"
      using bi by blast
    then show ?thesis by (simp add: columnKey_def sampleClient_def histogramOf_def)
  qed
  have R: "\<exists>ranges. fetchNumericRanges sampleClient 2 = (Inr ranges, 5) \<and>
      rev ranges ! 0 = (''public.t.secret'', \<lparr>range_min = None, range_max = None\<rparr>) \<and>
      mapGet ranges ''public.t.id'' = Some \<lparr>range_min = Some ''1'', range_max = Some ''5''\<rparr>"
    using r r0 r1 by auto
  have B: "\<exists>hist. fetchBooleanHistograms sampleClient 5 = (Inr hist, 8) \<and>
      rev hist ! 0 = (''public.t.hidden'', \<lparr>hist_true = None, hist_false = None\<rparr>) \<and>
      mapGet hist ''public.t.ok'' = Some \<lparr>hist_true = Some ''3'', hist_false = Some ''1''\<rparr>"
    using b b0 b1 by auto
  from h e1 e2 R B show ?thesis by blast
qed

section \<open>Properties of the temporal ranges\<close>

lemma temporal_not_numeric: "isTemporalDataType dt \<Longrightarrow> \<not> isNumericDataType dt"
  by (auto simp add: isTemporalDataType_def isNumericDataType_def Let_def)

lemma formatTemporalRange_dates:
  assumes "\<not> isTimeOnly dt"
  shows "formatTemporalRange rt a b dt =
           (case (safeParseDateLike rt a, safeParseDateLike rt b) of
              (Some t1, Some t2) \<Rightarrow> Inr (Some (fmtMonthYear t1 @ ''-'' @ fmtMonthYear t2))
            | _ \<Rightarrow> Inr None)"
  using assms by (simp add: formatTemporalRange_def)

lemma formatTemporalRange_returns:
  assumes "\<not> isTimeOnly dt"
  shows "\<exists>r. formatTemporalRange rt a b dt = Inr r"
  by (simp add: formatTemporalRange_dates [OF assms] split: option.splits)

subsection \<open>The calendar\<close>

text \<open>
  The year and the month that \<open>getUTCFullYear\<close> and \<open>getUTCMonth\<close> give for a day are
  those of the date the day was counted from.
\<close>

lemma div_succ:
  fixes a n :: int
  assumes "0 < n"
  shows "(a + 1) div n = a div n + (if (a + 1) mod n = 0 then 1 else 0)"
proof -
  define q r where "q = a div n" and "r = a mod n"
  have a: "a = q * n + r" by (simp add: q_def r_def)
  have r: "0 \<le> r" "r < n" using assms by (simp_all add: r_def)
  show ?thesis
  proof (cases "r + 1 = n")
    case True
    then have "a + 1 = (q + 1) * n" using a by (simp add: algebra_simps)
    then have "(a + 1) div n = q + 1" "(a + 1) mod n = 0" using assms by simp_all
    then show ?thesis by (simp add: q_def)
  next
    case False
    then have lt: "r + 1 < n" using r by simp
    have e: "a + 1 = q * n + (r + 1)" using a by simp
    have d: "(a + 1) div n = q" unfolding e using r lt assms by (simp add: div_pos_pos_trivial)
    have m: "(a + 1) mod n = r + 1" unfolding e using r lt assms by (simp add: mod_pos_pos_trivial)
    show ?thesis using d m r by (simp add: q_def)
  qed
qed

lemma shift_mod:
  fixes y :: int
  shows "(y - k * n) mod n = y mod n"
proof -
  have "y - k * n = y + (- k) * n" by simp
  then show ?thesis by (simp only: mod_mult_self1)
qed

lemma leap_steps:
  fixes y :: int
  shows "(y + 1 - 1969) div 4 = (y - 1969) div 4 + (if y mod 4 = 0 then 1 else 0)"
    and "(y + 1 - 1901) div 100 = (y - 1901) div 100 + (if y mod 100 = 0 then 1 else 0)"
    and "(y + 1 - 1601) div 400 = (y - 1601) div 400 + (if y mod 400 = 0 then 1 else 0)"
proof -
  have a: "(y - 1969 + 1) mod 4 = y mod 4" using shift_mod [of y 492 4] by simp
  have b: "(y - 1901 + 1) mod 100 = y mod 100" using shift_mod [of y 19 100] by simp
  have c: "(y - 1601 + 1) mod 400 = y mod 400" using shift_mod [of y 4 400] by simp
  have e: "y + 1 - 1969 = y - 1969 + 1" "y + 1 - 1901 = y - 1901 + 1" "y + 1 - 1601 = y - 1601 + 1"
    by simp_all
  show "(y + 1 - 1969) div 4 = (y - 1969) div 4 + (if y mod 4 = 0 then 1 else 0)"
    unfolding e(1) using div_succ [of 4 "y - 1969"] a by simp
  show "(y + 1 - 1901) div 100 = (y - 1901) div 100 + (if y mod 100 = 0 then 1 else 0)"
    unfolding e(2) using div_succ [of 100 "y - 1901"] b by simp
  show "(y + 1 - 1601) div 400 = (y - 1601) div 400 + (if y mod 400 = 0 then 1 else 0)"
    unfolding e(3) using div_succ [of 400 "y - 1601"] c by simp
qed

lemma leap_divisors:
  fixes y :: int
  shows "y mod 400 = 0 \<Longrightarrow> y mod 100 = 0" and "y mod 100 = 0 \<Longrightarrow> y mod 4 = 0"
proof -
  assume "y mod 400 = 0"
  then have "400 dvd y" by (simp add: dvd_eq_mod_eq_0)
  moreover have "(100::int) dvd 400" by simp
  ultimately have "100 dvd y" by (rule dvd_trans [rotated])
  then show "y mod 100 = 0" by (simp add: dvd_eq_mod_eq_0)
next
  assume "y mod 100 = 0"
  then have "100 dvd y" by (simp add: dvd_eq_mod_eq_0)
  moreover have "(4::int) dvd 100" by simp
  ultimately have "4 dvd y" by (rule dvd_trans [rotated])
  then show "y mod 4 = 0" by (simp add: dvd_eq_mod_eq_0)
qed

lemma DayFromYear_next:
  "DayFromYear (y + 1) = DayFromYear y + (if isLeapYear y then 366 else 365)"
proof -
  define p q r where "p = (y - 1969) div 4" and "q = (y - 1901) div 100" and "r = (y - 1601) div 400"
  have d0: "DayFromYear y = 365 * (y - 1970) + p - q + r"
    by (simp add: DayFromYear_def p_def q_def r_def)
  have d1: "DayFromYear (y + 1) =
      365 * (y + 1 - 1970) + (p + (if y mod 4 = 0 then 1 else 0))
      - (q + (if y mod 100 = 0 then 1 else 0)) + (r + (if y mod 400 = 0 then 1 else 0))"
    unfolding DayFromYear_def leap_steps by (simp only: p_def q_def r_def)
  show ?thesis
  proof (cases "y mod 4 = 0")
    case False
    then have n100: "y mod 100 \<noteq> 0" using leap_divisors(2) [of y] by auto
    then have n400: "y mod 400 \<noteq> 0" using leap_divisors(1) [of y] by auto
    show ?thesis unfolding d0 d1 using False n100 n400 by (simp add: isLeapYear_def)
  next
    case True
    show ?thesis
    proof (cases "y mod 100 = 0")
      case False
      then have n400: "y mod 400 \<noteq> 0" using leap_divisors(1) [of y] by auto
      show ?thesis unfolding d0 d1 using True False n400 by (simp add: isLeapYear_def)
    next
      case h: True
      show ?thesis unfolding d0 d1 using True h by (cases "y mod 400 = 0") (simp_all add: isLeapYear_def)
    qed
  qed
qed

lemma DayFromYear_less_next: "DayFromYear y < DayFromYear (y + 1)"
  by (simp add: DayFromYear_next)

lemma DayFromYear_mono:
  assumes "y \<le> z"
  shows "DayFromYear y \<le> DayFromYear z"
  using assms
proof (induction z rule: int_ge_induct)
  case base
  show ?case by simp
next
  case (step i)
  then show ?case using DayFromYear_less_next [of i] by simp
qed

lemma downYear_start: "DayFromYear (downYear day y) \<le> day"
proof (induction day y rule: downYear.induct)
  case (1 day y)
  show ?case
  proof (cases "day < DayFromYear y")
    case True
    then show ?thesis using 1 by (simp add: downYear.simps [of day y])
  next
    case False
    then show ?thesis by (simp add: downYear.simps [of day y])
  qed
qed

lemma upYear_bounds:
  "DayFromYear y \<le> day \<Longrightarrow>
     DayFromYear (upYear day y) \<le> day \<and> day < DayFromYear (upYear day y + 1)"
proof (induction day y rule: upYear.induct)
  case (1 day y)
  show ?case
  proof (cases "DayFromYear (y + 1) \<le> day")
    case True
    then show ?thesis using 1 by (simp add: upYear.simps [of day y])
  next
    case False
    then show ?thesis using 1(2) by (simp add: upYear.simps [of day y])
  qed
qed

lemma yearFromDay_bounds:
  "DayFromYear (yearFromDay day) \<le> day \<and> day < DayFromYear (yearFromDay day + 1)"
  unfolding yearFromDay_def by (rule upYear_bounds) (rule downYear_start)

lemma yearFromDay_unique:
  assumes "DayFromYear y \<le> day" and "day < DayFromYear (y + 1)"
  shows "yearFromDay day = y"
proof -
  define z where "z = yearFromDay day"
  have b: "DayFromYear z \<le> day" "day < DayFromYear (z + 1)"
    using yearFromDay_bounds [of day] by (simp_all add: z_def)
  have "\<not> z < y"
  proof
    assume "z < y"
    then have "DayFromYear (z + 1) \<le> DayFromYear y" by (intro DayFromYear_mono) simp
    then show False using b(2) assms(1) by simp
  qed
  moreover have "\<not> y < z"
  proof
    assume "y < z"
    then have "DayFromYear (y + 1) \<le> DayFromYear z" by (intro DayFromYear_mono) simp
    then show False using b(1) assms(2) by simp
  qed
  ultimately show ?thesis by (simp add: z_def)
qed

lemma upto_1_12: "[1..12::int] = [1, 2, 3, 4, 5, 6, 7, 8, 9, 10, 11, 12]"
  by code_simp

lemma month_cases:
  fixes m :: int
  assumes "1 \<le> m" and "m \<le> 12"
  shows "m = 1 \<or> m = 2 \<or> m = 3 \<or> m = 4 \<or> m = 5 \<or> m = 6 \<or> m = 7 \<or> m = 8 \<or> m = 9
    \<or> m = 10 \<or> m = 11 \<or> m = 12"
proof -
  have "m \<in> set [1..12]" using assms by simp
  then show ?thesis unfolding upto_1_12 by simp
qed

lemma dayOfDate_in_year:
  assumes "1 \<le> m" and "m \<le> 12" and "1 \<le> d" and "d \<le> daysInMonth y m"
  shows "DayFromYear y \<le> dayOfDate y m d \<and> dayOfDate y m d < DayFromYear (y + 1)"
  using month_cases [OF assms(1,2)] assms(3,4)
  by (auto simp add: dayOfDate_def daysBeforeMonth_def daysInMonth_def DayFromYear_next)

lemma yearFromDay_dayOfDate:
  assumes "1 \<le> m" and "m \<le> 12" and "1 \<le> d" and "d \<le> daysInMonth y m"
  shows "yearFromDay (dayOfDate y m d) = y"
  using dayOfDate_in_year [OF assms] by (intro yearFromDay_unique) simp_all

lemma monthFromDay_dayOfDate:
  assumes "1 \<le> m" and "m \<le> 12" and "1 \<le> d" and "d \<le> daysInMonth y m"
  shows "monthFromDay (dayOfDate y m d) = m - 1"
proof -
  have y: "yearFromDay (dayOfDate y m d) = y" using assms by (rule yearFromDay_dayOfDate)
  define leap :: int where "leap = (if isLeapYear y then 1 else 0)"
  have leap: "0 \<le> leap" "leap \<le> 1" by (simp_all add: leap_def)
  have e: "dayOfDate y m d - DayFromYear y = daysBeforeMonth leap m + d - 1"
    by (simp add: dayOfDate_def leap_def)
  have dm: "daysInMonth y m =
      (if m = 2 then 28 + leap else if m = 4 \<or> m = 6 \<or> m = 9 \<or> m = 11 then 30 else 31)"
    by (simp add: daysInMonth_def leap_def)
  have mf: "monthFromDay (dayOfDate y m d) =
     (let dwy = daysBeforeMonth leap m + d - 1
      in if dwy < 31 then 0 else if dwy < 59 + leap then 1 else if dwy < 90 + leap then 2
         else if dwy < 120 + leap then 3 else if dwy < 151 + leap then 4
         else if dwy < 181 + leap then 5 else if dwy < 212 + leap then 6
         else if dwy < 243 + leap then 7 else if dwy < 273 + leap then 8
         else if dwy < 304 + leap then 9 else if dwy < 334 + leap then 10 else 11)"
    unfolding monthFromDay_def y Let_def e leap_def ..
  have d: "1 \<le> d" "d \<le> (if m = 2 then 28 + leap else if m = 4 \<or> m = 6 \<or> m = 9 \<or> m = 11 then 30 else 31)"
    using assms(3,4) dm by simp_all
  show ?thesis
    unfolding mf
    apply (insert month_cases [OF assms(1,2)] d leap)
    apply (elim disjE)
    apply (simp_all add: daysBeforeMonth_def Let_def)
    done
qed

subsection \<open>Reading the texts of dates and timestamps\<close>

lemma digitChar_digit:
  assumes "k < 10"
  shows "isDigit (digitChar k)" and "of_char (digitChar k) - 48 = k"
    and "digitChar k \<noteq> CHR ''T''" and "digitChar k \<noteq> CHR '' ''"
    and "digitChar k \<noteq> CHR ''-''" and "digitChar k \<noteq> CHR '':''"
proof -
  have o: "(of_char (digitChar k) :: nat) = 48 + k" using assms by (simp add: digitChar_def)
  show "isDigit (digitChar k)" using assms by (simp add: isDigit_def o)
  show "of_char (digitChar k) - 48 = k" by (simp add: o)
  have "(of_char (digitChar k) :: nat) \<noteq> of_char CHR ''T''" using assms by (simp add: o)
  then show "digitChar k \<noteq> CHR ''T''" by metis
  have "(of_char (digitChar k) :: nat) \<noteq> of_char CHR '' ''" using assms by (simp add: o)
  then show "digitChar k \<noteq> CHR '' ''" by metis
  have "(of_char (digitChar k) :: nat) \<noteq> of_char CHR ''-''" using assms by (simp add: o)
  then show "digitChar k \<noteq> CHR ''-''" by metis
  have "(of_char (digitChar k) :: nat) \<noteq> of_char CHR '':''" using assms by (simp add: o)
  then show "digitChar k \<noteq> CHR '':''" by metis
qed

lemma readDigits_twoDigits:
  assumes "n < 100"
  shows "readDigits 2 (twoDigits n @ r) = Some (n, r)"
proof -
  have a: "n div 10 < 10" "n mod 10 < 10" using assms by simp_all
  have two: "(2::nat) = Suc (Suc 0)" by simp
  show ?thesis
    unfolding two twoDigits_def
    by (simp add: digitChar_digit [OF a(1)] digitChar_digit [OF a(2)])
qed

lemma readDigits_twoDigits_end:
  assumes "n < 100"
  shows "readDigits 2 (twoDigits n) = Some (n, [])"
  using readDigits_twoDigits [OF assms, of "[]"] by simp

lemma readDigits_fourDigits:
  assumes "n < 10000"
  shows "readDigits 4 (fourDigits n @ r) = Some (n, r)"
proof -
  define q p where "q = n div 100" and "p = n mod 100"
  define a b c e where "a = q div 10" and "b = q mod 10" and "c = p div 10" and "e = p mod 10"
  have n: "n = q * 100 + p" by (simp add: q_def p_def)
  have q: "q = a * 10 + b" by (simp add: a_def b_def)
  have p: "p = c * 10 + e" by (simp add: c_def e_def)
  have qp: "q < 100" "p < 100" using assms by (simp_all add: q_def p_def)
  have lt: "a < 10" "b < 10" "c < 10" "e < 10" using qp by (simp_all add: a_def b_def c_def e_def)
  have four: "(4::nat) = Suc (Suc (Suc (Suc 0)))" by simp
  have v: "a * 1000 + (b * 100 + (c * 10 + e)) = n"
    unfolding n q p by simp
  have f: "fourDigits n = [digitChar a, digitChar b, digitChar c, digitChar e]"
    by (simp add: fourDigits_def twoDigits_def q_def p_def a_def b_def c_def e_def)
  show ?thesis
    unfolding four f
    using v
    by (simp add: digitChar_digit [OF lt(1)] digitChar_digit [OF lt(2)]
        digitChar_digit [OF lt(3)] digitChar_digit [OF lt(4)])
qed

lemma parseIsoDate_dateText:
  assumes "y < 10000" "m < 100" "d < 100"
  shows "parseIsoDate (dateText y m d @ r) = Some (int y, int m, int d, r)"
proof -
  have 1: "readDigits 4 (fourDigits y @ CHR ''-'' # twoDigits m @ CHR ''-'' # twoDigits d @ r) =
      Some (y, CHR ''-'' # twoDigits m @ CHR ''-'' # twoDigits d @ r)"
    using assms(1) by (rule readDigits_fourDigits)
  have 2: "readDigits 2 (twoDigits m @ CHR ''-'' # twoDigits d @ r) =
      Some (m, CHR ''-'' # twoDigits d @ r)"
    using assms(2) by (rule readDigits_twoDigits)
  have 3: "readDigits 2 (twoDigits d @ r) = Some (d, r)"
    using assms(3) by (rule readDigits_twoDigits)
  have t: "dateText y m d @ r = fourDigits y @ CHR ''-'' # twoDigits m @ CHR ''-'' # twoDigits d @ r"
    by (simp add: dateText_def)
  show ?thesis
    unfolding parseIsoDate_def t 1
    by (simp add: expectChar_def 2 3)
qed

lemma parseIsoTime_timeText:
  assumes "h \<le> 23" "mi \<le> 59" "s \<le> 59"
  shows "parseIsoTime (timeText h mi s) =
           Some (int h * 3600000 + int mi * 60000 + int s * 1000, None)"
proof -
  have 1: "readDigits 2 (twoDigits h @ CHR '':'' # twoDigits mi @ CHR '':'' # twoDigits s) =
      Some (h, CHR '':'' # twoDigits mi @ CHR '':'' # twoDigits s)"
    using assms(1) by (intro readDigits_twoDigits) simp
  have 2: "readDigits 2 (twoDigits mi @ CHR '':'' # twoDigits s) =
      Some (mi, CHR '':'' # twoDigits s)"
    using assms(2) by (intro readDigits_twoDigits) simp
  have 3: "readDigits 2 (twoDigits s) = Some (s, [])"
    using assms(3) by (intro readDigits_twoDigits_end) simp
  have sec: "parseIsoSeconds (CHR '':'' # twoDigits s) = Some (int s, 0, [])"
    unfolding parseIsoSeconds_def by (simp add: expectChar_def 3)
  have off: "parseIsoOffset [] = Some None" by (simp add: parseIsoOffset_def)
  have t: "timeText h mi s = twoDigits h @ CHR '':'' # twoDigits mi @ CHR '':'' # twoDigits s"
    by (simp add: timeText_def)
  show ?thesis
    unfolding parseIsoTime_def t 1
    using assms by (simp add: expectChar_def 2 sec off)
qed

lemma parseIsoTime_offset_hours:
  assumes "h \<le> 23" "mi \<le> 59" "s \<le> 59" "z < 100" "sg = CHR ''+'' \<or> sg = CHR ''-''"
  shows "parseIsoTime (timeText h mi s @ sg # twoDigits z) = None"
proof -
  have 1: "readDigits 2 (twoDigits h @ CHR '':'' # twoDigits mi @ CHR '':'' # twoDigits s @ sg # twoDigits z) =
      Some (h, CHR '':'' # twoDigits mi @ CHR '':'' # twoDigits s @ sg # twoDigits z)"
    using assms(1) by (intro readDigits_twoDigits) simp
  have 2: "readDigits 2 (twoDigits mi @ CHR '':'' # twoDigits s @ sg # twoDigits z) =
      Some (mi, CHR '':'' # twoDigits s @ sg # twoDigits z)"
    using assms(2) by (intro readDigits_twoDigits) simp
  have 3: "readDigits 2 (twoDigits s @ sg # twoDigits z) = Some (s, sg # twoDigits z)"
    using assms(3) by (intro readDigits_twoDigits) simp
  have 4: "readDigits 2 (twoDigits z) = Some (z, [])"
    using assms(4) by (rule readDigits_twoDigits_end)
  have sec: "parseIsoSeconds (CHR '':'' # twoDigits s @ sg # twoDigits z) =
      Some (int s, 0, sg # twoDigits z)"
    unfolding parseIsoSeconds_def using assms(5) by (auto simp add: expectChar_def 3)
  have off: "parseIsoOffset (sg # twoDigits z) = None"
    unfolding parseIsoOffset_def using assms(5) 4 by (auto simp add: expectChar_def twoDigits_def)
  have t: "timeText h mi s @ sg # twoDigits z =
      twoDigits h @ CHR '':'' # twoDigits mi @ CHR '':'' # twoDigits s @ sg # twoDigits z"
    by (simp add: timeText_def)
  show ?thesis
    unfolding parseIsoTime_def t 1
    by (simp add: expectChar_def 2 sec off)
qed

lemma twoDigits_chars:
  assumes "n < 100"
  shows "CHR ''T'' \<notin> set (twoDigits n)" and "CHR '' '' \<notin> set (twoDigits n)"
proof -
  have a: "n div 10 < 10" "n mod 10 < 10" using assms by simp_all
  show "CHR ''T'' \<notin> set (twoDigits n)"
    using digitChar_digit(3) [OF a(1)] digitChar_digit(3) [OF a(2)]
    by (auto simp add: twoDigits_def)
  show "CHR '' '' \<notin> set (twoDigits n)"
    using digitChar_digit(4) [OF a(1)] digitChar_digit(4) [OF a(2)]
    by (auto simp add: twoDigits_def)
qed

lemma dateText_chars:
  assumes "y < 10000" "m < 100" "d < 100"
  shows "CHR ''T'' \<notin> set (dateText y m d)" and "CHR '' '' \<notin> set (dateText y m d)"
proof -
  have q: "y div 100 < 100" "y mod 100 < 100" using assms(1) by simp_all
  show "CHR ''T'' \<notin> set (dateText y m d)"
    using twoDigits_chars(1) [OF q(1)] twoDigits_chars(1) [OF q(2)]
      twoDigits_chars(1) [OF assms(2)] twoDigits_chars(1) [OF assms(3)]
    by (simp add: dateText_def fourDigits_def)
  show "CHR '' '' \<notin> set (dateText y m d)"
    using twoDigits_chars(2) [OF q(1)] twoDigits_chars(2) [OF q(2)]
      twoDigits_chars(2) [OF assms(2)] twoDigits_chars(2) [OF assms(3)]
    by (simp add: dateText_def fourDigits_def)
qed

lemma timeText_chars:
  assumes "h < 100" "mi < 100" "s < 100"
  shows "CHR ''T'' \<notin> set (timeText h mi s)"
  using twoDigits_chars(1) [OF assms(1)] twoDigits_chars(1) [OF assms(2)]
    twoDigits_chars(1) [OF assms(3)]
  by (simp add: timeText_def)

lemma replaceFirstChar_absent: "p \<notin> set s \<Longrightarrow> replaceFirstChar p r s = s"
  by (induction s) auto

lemma replaceFirstChar_first: "p \<notin> set a \<Longrightarrow> replaceFirstChar p r (a @ p # b) = a @ r @ b"
  by (induction a) auto

lemma parseIso_dateText:
  assumes "y < 10000" "1 \<le> m" "m \<le> 12" "1 \<le> d" "int d \<le> daysInMonth (int y) (int m)"
  shows "parseIso rt (dateText y m d) =
           Some (dayOfDate (int y) (int m) (int d) * msPerDay)"
proof -
  have "daysInMonth (int y) (int m) \<le> 31" by (simp add: daysInMonth_def)
  then have d: "d < 100" using assms(5) by simp
  have m: "m < 100" using assms(3) by simp
  have p: "parseIsoDate (dateText y m d) = Some (int y, int m, int d, [])"
    using parseIsoDate_dateText [OF assms(1) m d, of "[]"] by simp
  show ?thesis unfolding parseIso_def p using assms by simp
qed

lemma parseIso_timestamp:
  assumes "y < 10000" "1 \<le> m" "m \<le> 12" "1 \<le> d" "int d \<le> daysInMonth (int y) (int m)"
    and "h \<le> 23" "mi \<le> 59" "s \<le> 59"
  shows "parseIso rt (dateText y m d @ CHR ''T'' # timeText h mi s) =
           Some (localToUTC rt (dayOfDate (int y) (int m) (int d) * msPerDay +
                                (int h * 3600000 + int mi * 60000 + int s * 1000)))"
proof -
  have "daysInMonth (int y) (int m) \<le> 31" by (simp add: daysInMonth_def)
  then have d: "d < 100" using assms(5) by simp
  have m: "m < 100" using assms(3) by simp
  have p: "parseIsoDate (dateText y m d @ CHR ''T'' # timeText h mi s) =
      Some (int y, int m, int d, CHR ''T'' # timeText h mi s)"
    using assms(1) m d by (rule parseIsoDate_dateText)
  have t: "parseIsoTime (timeText h mi s) =
      Some (int h * 3600000 + int mi * 60000 + int s * 1000, None)"
    using assms(6-8) by (rule parseIsoTime_timeText)
  show ?thesis unfolding parseIso_def p using assms(2-5) by (simp add: expectChar_def t)
qed

lemma parseIso_timestamptz:
  assumes "y < 10000" "m < 100" "d < 100"
    and "h \<le> 23" "mi \<le> 59" "s \<le> 59" "z < 100" "sg = CHR ''+'' \<or> sg = CHR ''-''"
  shows "parseIso rt (dateText y m d @ CHR ''T'' # timeText h mi s @ sg # twoDigits z) = None"
proof -
  have p: "parseIsoDate (dateText y m d @ CHR ''T'' # timeText h mi s @ sg # twoDigits z) =
      Some (int y, int m, int d, CHR ''T'' # timeText h mi s @ sg # twoDigits z)"
    using assms(1-3) by (rule parseIsoDate_dateText)
  have t: "parseIsoTime (timeText h mi s @ sg # twoDigits z) = None"
    using assms(4-8) by (rule parseIsoTime_offset_hours)
  show ?thesis unfolding parseIso_def p by (simp add: expectChar_def t)
qed

lemma safeParseDateLike_dateText:
  assumes "y < 10000" "1 \<le> m" "m \<le> 12" "1 \<le> d" "int d \<le> daysInMonth (int y) (int m)"
  shows "safeParseDateLike rt (Str (dateText y m d)) =
           Some (dayOfDate (int y) (int m) (int d) * msPerDay)"
proof -
  have "daysInMonth (int y) (int m) \<le> 31" by (simp add: daysInMonth_def)
  then have d: "d < 100" using assms(5) by simp
  have m: "m < 100" using assms(3) by simp
  have c: "CHR ''T'' \<notin> set (dateText y m d)" "CHR '' '' \<notin> set (dateText y m d)"
    using dateText_chars [OF assms(1) m d] by simp_all
  have r: "replaceFirstChar CHR '' '' ''T'' (dateText y m d) = dateText y m d"
    using c(2) by (rule replaceFirstChar_absent)
  show ?thesis
    using c(1) by (simp add: r newDate_def parseIso_dateText [OF assms])
qed

lemma safeParseDateLike_timestamp:
  assumes "y < 10000" "1 \<le> m" "m \<le> 12" "1 \<le> d" "int d \<le> daysInMonth (int y) (int m)"
    and "h \<le> 23" "mi \<le> 59" "s \<le> 59"
  shows "safeParseDateLike rt (Str (dateText y m d @ CHR '' '' # timeText h mi s)) =
           Some (localToUTC rt (dayOfDate (int y) (int m) (int d) * msPerDay +
                                (int h * 3600000 + int mi * 60000 + int s * 1000)))"
proof -
  have "daysInMonth (int y) (int m) \<le> 31" by (simp add: daysInMonth_def)
  then have d: "d < 100" using assms(5) by simp
  have m: "m < 100" using assms(3) by simp
  have c: "CHR ''T'' \<notin> set (dateText y m d)" "CHR '' '' \<notin> set (dateText y m d)"
    using dateText_chars [OF assms(1) m d] by simp_all
  have ct: "CHR ''T'' \<notin> set (timeText h mi s)"
    using assms(6-8) by (intro timeText_chars) simp_all
  have r: "replaceFirstChar CHR '' '' ''T'' (dateText y m d @ CHR '' '' # timeText h mi s) =
      dateText y m d @ CHR ''T'' # timeText h mi s"
    using replaceFirstChar_first [OF c(2), of "''T''" "timeText h mi s"] by simp
  have n: "CHR ''T'' \<notin> set (dateText y m d @ CHR '' '' # timeText h mi s)"
    using c(1) ct by simp
  show ?thesis
    using n by (simp add: r newDate_def parseIso_timestamp [OF assms])
qed

lemma safeParseDateLike_timestamptz:
  assumes "y < 10000" "m < 100" "d < 100"
    and "h \<le> 23" "mi \<le> 59" "s \<le> 59" "z < 100" "sg = CHR ''+'' \<or> sg = CHR ''-''"
  shows "safeParseDateLike rt (Str (dateText y m d @ CHR '' '' # timeText h mi s @ sg # twoDigits z)) =
           parseOtherDate rt (dateText y m d @ CHR ''T'' # timeText h mi s @ sg # twoDigits z)"
proof -
  have c: "CHR ''T'' \<notin> set (dateText y m d)" "CHR '' '' \<notin> set (dateText y m d)"
    using dateText_chars [OF assms(1-3)] by simp_all
  have ct: "CHR ''T'' \<notin> set (timeText h mi s)"
    using assms(4-6) by (intro timeText_chars) simp_all
  have cz: "CHR ''T'' \<notin> set (twoDigits z)" using assms(7) by (rule twoDigits_chars)
  have r: "replaceFirstChar CHR '' '' ''T''
             (dateText y m d @ CHR '' '' # timeText h mi s @ sg # twoDigits z) =
      dateText y m d @ CHR ''T'' # timeText h mi s @ sg # twoDigits z"
    using replaceFirstChar_first [OF c(2), of "''T''" "timeText h mi s @ sg # twoDigits z"] by simp
  have n: "CHR ''T'' \<notin> set (dateText y m d @ CHR '' '' # timeText h mi s @ sg # twoDigits z)"
    using c(1) ct cz assms(8) by auto
  show ?thesis
    using n by (simp add: r newDate_def parseIso_timestamptz [OF assms])
qed

lemma fmtMonthYear_of_day:
  assumes "1 \<le> m" "m \<le> 12" "1 \<le> d" "d \<le> daysInMonth y m"
    and "t div msPerDay = dayOfDate y m d"
  shows "fmtMonthYear t = months ! nat (m - 1) @ '' '' @ intToString y"
  unfolding fmtMonthYear_def getUTCMonth_def getUTCFullYear_def assms(5)
  by (simp add: yearFromDay_dayOfDate [OF assms(1-4)] monthFromDay_dayOfDate [OF assms(1-4)])

lemma day_of_time:
  assumes "0 \<le> ms" "ms < msPerDay"
  shows "(day * msPerDay + ms) div msPerDay = day"
proof -
  have p: "0 < msPerDay" by (simp add: msPerDay_def)
  have "(day * msPerDay + ms) div msPerDay = day + ms div msPerDay"
    using p by simp
  also have "ms div msPerDay = 0" using assms by (simp add: div_pos_pos_trivial)
  finally show ?thesis by simp
qed

lemma timeOfDay_bounds:
  assumes "h \<le> 23" "mi \<le> 59" "s \<le> 59"
  shows "0 \<le> int h * 3600000 + int mi * 60000 + int s * 1000"
    and "int h * 3600000 + int mi * 60000 + int s * 1000 < msPerDay"
  using assms by (simp_all add: msPerDay_def)

subsection \<open>The ranges of date and timestamp columns\<close>

lemma fmtMonthYear_date:
  assumes "1 \<le> m" "m \<le> 12" "1 \<le> d" "int d \<le> daysInMonth (int y) (int m)"
  shows "fmtMonthYear (dayOfDate (int y) (int m) (int d) * msPerDay) =
           months ! (m - 1) @ '' '' @ intToString (int y)"
proof -
  have a: "1 \<le> int m" "int m \<le> 12" "1 \<le> int d" using assms by simp_all
  have p: "0 < msPerDay" by (simp add: msPerDay_def)
  have t: "dayOfDate (int y) (int m) (int d) * msPerDay div msPerDay = dayOfDate (int y) (int m) (int d)"
    using p by simp
  have n: "nat (int m - 1) = m - 1" by simp
  show ?thesis using fmtMonthYear_of_day [OF a assms(4) t] by (simp only: n)
qed

lemma fmtMonthYear_timestamp:
  assumes "1 \<le> m" "m \<le> 12" "1 \<le> d" "int d \<le> daysInMonth (int y) (int m)"
    and "h \<le> 23" "mi \<le> 59" "s \<le> 59"
  shows "fmtMonthYear (dayOfDate (int y) (int m) (int d) * msPerDay +
                       (int h * 3600000 + int mi * 60000 + int s * 1000)) =
           months ! (m - 1) @ '' '' @ intToString (int y)"
proof -
  have a: "1 \<le> int m" "int m \<le> 12" "1 \<le> int d" using assms by simp_all
  have b: "0 \<le> int h * 3600000 + int mi * 60000 + int s * 1000"
    "int h * 3600000 + int mi * 60000 + int s * 1000 < msPerDay"
    using timeOfDay_bounds [OF assms(5-7)] by simp_all
  have t: "(dayOfDate (int y) (int m) (int d) * msPerDay +
            (int h * 3600000 + int mi * 60000 + int s * 1000)) div msPerDay =
           dayOfDate (int y) (int m) (int d)"
    using b by (rule day_of_time)
  have n: "nat (int m - 1) = m - 1" by simp
  show ?thesis using fmtMonthYear_of_day [OF a assms(4) t] by (simp only: n)
qed

lemma formatTemporalRange_date_texts:
  assumes "\<not> isTimeOnly dt"
    and "y1 < 10000" "1 \<le> m1" "m1 \<le> 12" "1 \<le> d1" "int d1 \<le> daysInMonth (int y1) (int m1)"
    and "y2 < 10000" "1 \<le> m2" "m2 \<le> 12" "1 \<le> d2" "int d2 \<le> daysInMonth (int y2) (int m2)"
  shows "formatTemporalRange rt (Str (dateText y1 m1 d1)) (Str (dateText y2 m2 d2)) dt =
           Inr (Some (months ! (m1 - 1) @ '' '' @ intToString (int y1) @ ''-'' @
                      months ! (m2 - 1) @ '' '' @ intToString (int y2)))"
  unfolding formatTemporalRange_dates [OF assms(1)]
    safeParseDateLike_dateText [OF assms(2-6)] safeParseDateLike_dateText [OF assms(7-11)]
  by (simp add: fmtMonthYear_date [OF assms(3-6)] fmtMonthYear_date [OF assms(8-11)])

lemma formatTemporalRange_timestamp_texts:
  assumes "\<not> isTimeOnly dt" and "\<And>t. localToUTC rt t = t"
    and "y1 < 10000" "1 \<le> m1" "m1 \<le> 12" "1 \<le> d1" "int d1 \<le> daysInMonth (int y1) (int m1)"
    and "h1 \<le> 23" "mi1 \<le> 59" "s1 \<le> 59"
    and "y2 < 10000" "1 \<le> m2" "m2 \<le> 12" "1 \<le> d2" "int d2 \<le> daysInMonth (int y2) (int m2)"
    and "h2 \<le> 23" "mi2 \<le> 59" "s2 \<le> 59"
  shows "formatTemporalRange rt (Str (dateText y1 m1 d1 @ CHR '' '' # timeText h1 mi1 s1))
           (Str (dateText y2 m2 d2 @ CHR '' '' # timeText h2 mi2 s2)) dt =
           Inr (Some (months ! (m1 - 1) @ '' '' @ intToString (int y1) @ ''-'' @
                      months ! (m2 - 1) @ '' '' @ intToString (int y2)))"
  unfolding formatTemporalRange_dates [OF assms(1)]
    safeParseDateLike_timestamp [OF assms(3-10)] safeParseDateLike_timestamp [OF assms(11-18)]
    assms(2)
  by (simp add: fmtMonthYear_timestamp [OF assms(4-10)] fmtMonthYear_timestamp [OF assms(12-18)])

lemma formatTemporalRange_unread:
  assumes "\<not> isTimeOnly dt"
    and "safeParseDateLike rt a = None \<or> safeParseDateLike rt b = None"
  shows "formatTemporalRange rt a b dt = Inr None"
  using assms(2) by (auto simp add: formatTemporalRange_dates [OF assms(1)] split: option.splits)

lemma rangeCell_unread_bound:
  assumes "isTemporalDataType (data_type c)" "\<not> isTimeOnly (data_type c)"
    and "min_text c \<noteq> Null" "max_text c \<noteq> Null"
    and "safeParseDateLike rt (min_text c) = None \<or> safeParseDateLike rt (max_text c) = None"
  shows "rangeCell rt c = Inr []"
proof -
  have n: "\<not> isNumericDataType (data_type c)" using assms(1) by (rule temporal_not_numeric)
  have "formatTemporalRange rt (min_text c) (max_text c) (data_type c) = Inr None"
    using assms(2,5) by (rule formatTemporalRange_unread)
  then show ?thesis using assms(1,3,4) n by (simp add: rangeCell_def)
qed

lemma dateText_example:
  "dateText 2020 1 15 = ''2020-01-15'' \<and> timeText 10 0 0 = ''10:00:00'' \<and> twoDigits 0 = ''00''"
  by code_simp

text \<open>
  Claim C7 holds at its example, and fails on the code for the columns of type
  \<open>timestamp with time zone\<close>. A \<open>date\<close> column with minimum \<open>2020-01-15\<close> and maximum
  \<open>2025-10-03\<close> shows \<open>Jan 2020-Oct 2025\<close> on every host; so do all texts of dates and, on
  a host in UTC, all texts of timestamps (\<open>formatTemporalRange_date_texts\<close> and
  \<open>formatTemporalRange_timestamp_texts\<close> above), and a bound that is not read leaves the
  range empty and throws nothing (\<open>rangeCell_unread_bound\<close>). But the program counts
  \<open>timestamp with time zone\<close> among the temporal types, with the label \<open>tstz\<close>, and
  PostgreSQL writes the values of such a column with the offset of the session's time
  zone as a sign and hours: \<open>2020-01-15 10:00:00+00\<close> in UTC. \<open>safeParseDateLike\<close> puts a
  \<open>T\<close> for the space and hands \<open>2020-01-15T10:00:00+00\<close> to \<open>new Date\<close>. The date-time
  format of the language has offsets as \<open>+HH:mm\<close> only, so on every host the text is
  outside the format and what becomes of it is the engine's choice; an engine that
  reads nothing else (as that of Node does for a text that follows the format up to
  the \<open>T\<close>) gives the Invalid Date. The range of the column is then empty, where the
  claim has \<open>Jan 2020-Oct 2025\<close>: in the table of a \<open>timestamp with time zone\<close> column
  and a \<open>date\<close> column with the same bounds, only the second has a range.
\<close>

theorem temporal_range_timestamptz_empty:
  "formatTemporalRange rt (Str ''2020-01-15'') (Str ''2025-10-03'') ''date'' =
     Inr (Some ''Jan 2020-Oct 2025'') \<and>
   isTemporalDataType ''timestamp with time zone'' \<and>
   \<not> isTimeOnly ''timestamp with time zone'' \<and>
   humanDataType ''timestamp with time zone'' = JString ''tstz'' \<and>
   parseIso rt ''2020-01-15T10:00:00+00'' = None \<and>
   safeParseDateLike rt (Str ''2020-01-15 10:00:00+00'') =
     parseOtherDate rt ''2020-01-15T10:00:00+00'' \<and>
   formatTemporalRange hostUTC (Str ''2020-01-15 10:00:00+00'') (Str ''2025-10-03 10:00:00+00'')
     ''timestamp with time zone'' = Inr None \<and>
   rangeCell hostUTC
     \<lparr>column_name = ''created_at'', data_type = ''timestamp with time zone'',
      min_text = Str ''2020-01-15 10:00:00+00'', max_text = Str ''2025-10-03 10:00:00+00'',
      true_count = Null, false_count = Null\<rparr> = Inr [] \<and>
   map_sum id linesOf
     (columnsBox hostUTC
        [\<lparr>column_name = ''created_at'', data_type = ''timestamp with time zone'',
          min_text = Str ''2020-01-15 10:00:00+00'', max_text = Str ''2025-10-03 10:00:00+00'',
          true_count = Null, false_count = Null\<rparr>,
         \<lparr>column_name = ''day'', data_type = ''date'',
          min_text = Str ''2020-01-15'', max_text = Str ''2025-10-03'',
          true_count = Null, false_count = Null\<rparr>]) =
     Inr [''name        type  range              values'',
          ''created_at  tstz                     '',
          ''day         date  Jan 2020-Oct 2025  '']"
proof -
  have 1: "formatTemporalRange rt (Str ''2020-01-15'') (Str ''2025-10-03'') ''date'' =
     Inr (Some ''Jan 2020-Oct 2025'')"
    by code_simp
  have 2: "isTemporalDataType ''timestamp with time zone''" by code_simp
  have 3: "\<not> isTimeOnly ''timestamp with time zone''" by code_simp
  have 4: "humanDataType ''timestamp with time zone'' = JString ''tstz''" by code_simp
  have 5: "parseIso rt ''2020-01-15T10:00:00+00'' = None" by code_simp
  have 6: "safeParseDateLike rt (Str ''2020-01-15 10:00:00+00'') =
     parseOtherDate rt ''2020-01-15T10:00:00+00''"
    by code_simp
  have 7: "formatTemporalRange hostUTC (Str ''2020-01-15 10:00:00+00'')
     (Str ''2025-10-03 10:00:00+00'') ''timestamp with time zone'' = Inr None"
    by code_simp
  have 8: "rangeCell hostUTC
     \<lparr>column_name = ''created_at'', data_type = ''timestamp with time zone'',
      min_text = Str ''2020-01-15 10:00:00+00'', max_text = Str ''2025-10-03 10:00:00+00'',
      true_count = Null, false_count = Null\<rparr> = Inr []"
    by code_simp
  have 9: "map_sum id linesOf
     (columnsBox hostUTC
        [\<lparr>column_name = ''created_at'', data_type = ''timestamp with time zone'',
          min_text = Str ''2020-01-15 10:00:00+00'', max_text = Str ''2025-10-03 10:00:00+00'',
          true_count = Null, false_count = Null\<rparr>,
         \<lparr>column_name = ''day'', data_type = ''date'',
          min_text = Str ''2020-01-15'', max_text = Str ''2025-10-03'',
          true_count = Null, false_count = Null\<rparr>]) =
     Inr [''name        type  range              values'',
          ''created_at  tstz                     '',
          ''day         date  Jan 2020-Oct 2025  '']"
    by code_simp
  from 1 2 3 4 5 6 7 8 9 show ?thesis by blast
qed

section \<open>Properties of the run\<close>

lemma finallyEnd_output:
  "stdout (finallyEnd cl out) = stdout out \<and> screen (finallyEnd cl out) = screen out"
  by (simp add: finallyEnd_def split: option.splits)

text \<open>
  Claim C9. With the connection made and no table in the answer to the tables query,
  a run whose catalog reading completes prints the one line \<open>No tables found.\<close> and puts
  nothing on the screen, in both programs. (The columns are read before the tables are
  looked at; when that reading fails the run ends with its error and prints nothing.)
\<close>

theorem empty_catalog_prints_no_tables:
  assumes "connectClient cl = None" "tablesQuery cl 0 = Inr []"
  shows "((\<exists>cbt. fst (fetchColumnsByTable cl 1) = Inr cbt) \<longrightarrow>
            stdout (listTables rt cl pl argv) = [''No tables found.''] \<and>
            screen (listTables rt cl pl argv) = None) \<and>
         ((\<exists>e. fst (fetchColumnsByTable cl 1) = Inl e) \<longrightarrow>
            stdout (listTables rt cl pl argv) = [] \<and>
            screen (listTables rt cl pl argv) = None \<and>
            failed (listTables rt cl pl argv) \<noteq> None) \<and>
         ((\<exists>cbt. fst (fetchColumnsByTable_ts cl 1) = Inr cbt) \<longrightarrow>
            stdout (listTables_ts cl pl argv) = [''No tables found.''] \<and>
            screen (listTables_ts cl pl argv) = None) \<and>
         ((\<exists>e. fst (fetchColumnsByTable_ts cl 1) = Inl e) \<longrightarrow>
            stdout (listTables_ts cl pl argv) = [] \<and>
            screen (listTables_ts cl pl argv) = None \<and>
            failed (listTables_ts cl pl argv) \<noteq> None)"
proof -
  have e: "fetchEstimatedTables cl 0 = (Inr [], 1)"
    using assms(2) by (simp add: fetchEstimatedTables_def)
  obtain r n where c: "fetchColumnsByTable cl 1 = (r, n)" by (cases "fetchColumnsByTable cl 1")
  obtain r' n' where c': "fetchColumnsByTable_ts cl 1 = (r', n')"
    by (cases "fetchColumnsByTable_ts cl 1")
  have a: "listTables rt cl pl argv =
             finallyEnd cl
               (case r of
                  Inl e \<Rightarrow> failWith (DbFailure e)
                | Inr columnsByTable \<Rightarrow>
                    \<lparr>stdout = [''No tables found.''], screen = None, failed = None\<rparr>)"
    using assms(1) c by (cases r) (simp_all add: listTables_def e)
  have b: "listTables_ts cl pl argv =
             finallyEnd cl
               (case r' of
                  Inl e \<Rightarrow> failWith (DbFailure e)
                | Inr columnsByTable \<Rightarrow>
                    \<lparr>stdout = [''No tables found.''], screen = None, failed = None\<rparr>)"
    using assms(1) c' by (cases r') (simp_all add: listTables_ts_def e)
  have f: "failed (finallyEnd cl (failWith x)) \<noteq> None" for x
    by (simp add: finallyEnd_def failWith_def split: option.splits)
  have g: "stdout (failWith x) = [] \<and> screen (failWith x) = None" for x
    by (simp add: failWith_def)
  have 1: "(\<exists>cbt. fst (fetchColumnsByTable cl 1) = Inr cbt) \<longrightarrow>
            stdout (listTables rt cl pl argv) = [''No tables found.''] \<and>
            screen (listTables rt cl pl argv) = None"
    unfolding a c by (cases r) (simp_all add: finallyEnd_output)
  have 2: "(\<exists>e. fst (fetchColumnsByTable cl 1) = Inl e) \<longrightarrow>
            stdout (listTables rt cl pl argv) = [] \<and>
            screen (listTables rt cl pl argv) = None \<and>
            failed (listTables rt cl pl argv) \<noteq> None"
    unfolding a c by (cases r) (simp_all add: finallyEnd_output f g)
  have 3: "(\<exists>cbt. fst (fetchColumnsByTable_ts cl 1) = Inr cbt) \<longrightarrow>
            stdout (listTables_ts cl pl argv) = [''No tables found.''] \<and>
            screen (listTables_ts cl pl argv) = None"
    unfolding b c' by (cases r') (simp_all add: finallyEnd_output)
  have 4: "(\<exists>e. fst (fetchColumnsByTable_ts cl 1) = Inl e) \<longrightarrow>
            stdout (listTables_ts cl pl argv) = [] \<and>
            screen (listTables_ts cl pl argv) = None \<and>
            failed (listTables_ts cl pl argv) \<noteq> None"
    unfolding b c' by (cases r') (simp_all add: finallyEnd_output f g)
  from 1 2 3 4 show ?thesis by blast
qed

text \<open>
  The database without tables, in either mode.
\<close>

theorem empty_catalog_prints_no_tables_witness:
  "connectClient emptyClient = None \<and> tablesQuery emptyClient 0 = Inr [] \<and>
   stdout (listTables hostUTC emptyClient samplePool []) = [''No tables found.''] \<and>
   screen (listTables hostUTC emptyClient samplePool []) = None \<and>
   stdout (listTables_ts emptyClient samplePool [''--exact'']) = [''No tables found.''] \<and>
   screen (listTables_ts emptyClient samplePool [''--exact'']) = None"
proof -
  have c: "connectClient emptyClient = None" by (simp add: emptyClient_def)
  have t: "tablesQuery emptyClient 0 = Inr []" by (simp add: emptyClient_def)
  have f: "\<exists>cbt. fst (fetchColumnsByTable emptyClient 1) = Inr cbt"
    by (simp add: fetchColumnsByTable_def fetchNumericRanges_def fetchBooleanHistograms_def
        emptyClient_def)
  have f': "\<exists>cbt. fst (fetchColumnsByTable_ts emptyClient 1) = Inr cbt"
    by (simp add: fetchColumnsByTable_ts_def emptyClient_def)
  have a: "stdout (listTables hostUTC emptyClient samplePool []) = [''No tables found.''] \<and>
           screen (listTables hostUTC emptyClient samplePool []) = None"
    using empty_catalog_prints_no_tables [OF c t, of hostUTC samplePool "[]"] f by blast
  have b: "stdout (listTables_ts emptyClient samplePool [''--exact'']) = [''No tables found.''] \<and>
           screen (listTables_ts emptyClient samplePool [''--exact'']) = None"
    using empty_catalog_prints_no_tables [OF c t, of hostUTC samplePool "[''--exact'']"] f' by blast
  from c t a b show ?thesis by blast
qed

section \<open>Properties of the renderers\<close>

lemma columnRow_Inr:
  assumes "columnRow rt c = Inr r"
  shows "r_name r = column_name c \<and> r_typeLabel r = humanDataType (data_type c) \<and>
         rangeCell rt c = Inr (r_range r) \<and> r_values r = valuesCell c"
  using assms by (auto simp add: columnRow_def Let_def split: sum.splits)

lemma columnRows_Inr:
  "columnRows rt cols = Inr rows \<Longrightarrow>
     length rows = length cols \<and> (\<forall>i<length cols. columnRow rt (cols ! i) = Inr (rows ! i))"
proof (induction cols arbitrary: rows)
  case Nil
  then show ?case by simp
next
  case (Cons c cs)
  from Cons.prems obtain r rs where r: "columnRow rt c = Inr r"
    and rs: "columnRows rt cs = Inr rs" and rows: "rows = r # rs"
    by (auto split: sum.splits)
  have ih: "length rs = length cs \<and> (\<forall>i<length cs. columnRow rt (cs ! i) = Inr (rs ! i))"
    using Cons.IH [OF rs] .
  show ?case unfolding rows using r ih by (auto simp add: nth_Cons split: nat.splits)
qed

lemma rowLines_Inr:
  "rowLines nw tw rw rows = Inr ls \<Longrightarrow>
     length ls = length rows \<and> (\<forall>i<length rows. rowLine nw tw rw (rows ! i) = Inr (ls ! i))"
proof (induction rows arbitrary: ls)
  case Nil
  then show ?case by simp
next
  case (Cons r rs)
  from Cons.prems obtain l ls' where l: "rowLine nw tw rw r = Inr l"
    and ls': "rowLines nw tw rw rs = Inr ls'" and ls: "ls = l # ls'"
    by (auto split: sum.splits)
  have ih: "length ls' = length rs \<and> (\<forall>i<length rs. rowLine nw tw rw (rs ! i) = Inr (ls' ! i))"
    using Cons.IH [OF ls'] .
  show ?case unfolding ls using l ih by (auto simp add: nth_Cons split: nat.splits)
qed

lemma rowLine_Inr:
  assumes "rowLine nw tw rw r = Inr l"
  shows "\<exists>lbl. r_typeLabel r = JString lbl \<and>
           linesOf l = [padEnd nw (r_name r) @ ''  '' @ padEnd tw lbl @ ''  '' @
                        padEnd rw (r_range r) @ ''  '' @ r_values r]"
  using assms by (cases "r_typeLabel r") (auto simp add: rowLine_def)

lemma linesOf_rowLines:
  assumes "\<forall>i<length ls. \<exists>s. linesOf (ls ! i) = [s]"
  shows "length (concat (map linesOf ls)) = length ls \<and>
         (\<forall>i<length ls. linesOf (ls ! i) = [concat (map linesOf ls) ! i])"
  using assms
proof (induction ls)
  case Nil
  then show ?case by simp
next
  case (Cons l ls)
  from Cons.prems have "\<exists>s. linesOf ((l # ls) ! 0) = [s]" by blast
  then obtain s where s: "linesOf l = [s]" by auto
  have "\<forall>i<length ls. \<exists>s. linesOf (ls ! i) = [s]"
  proof (intro allI impI)
    fix i assume "i < length ls"
    then have "\<exists>s. linesOf ((l # ls) ! Suc i) = [s]" using Cons.prems by auto
    then show "\<exists>s. linesOf (ls ! i) = [s]" by simp
  qed
  then have ih: "length (concat (map linesOf ls)) = length ls \<and>
         (\<forall>i<length ls. linesOf (ls ! i) = [concat (map linesOf ls) ! i])"
    by (rule Cons.IH)
  show ?case using s ih by (auto simp add: nth_Cons split: nat.splits)
qed

lemma tableBoxes_Inr:
  "tableBoxes rt md views = Inr boxes \<Longrightarrow>
     length boxes = length views \<and> (\<forall>i<length views. tableBox rt md (views ! i) = Inr (boxes ! i))"
proof (induction views arbitrary: boxes)
  case Nil
  then show ?case by simp
next
  case (Cons v vs)
  from Cons.prems obtain b bs where b: "tableBox rt md v = Inr b"
    and bs: "tableBoxes rt md vs = Inr bs" and boxes: "boxes = b # bs"
    by (auto split: sum.splits)
  have ih: "length bs = length vs \<and> (\<forall>i<length vs. tableBox rt md (vs ! i) = Inr (bs ! i))"
    using Cons.IH [OF bs] .
  show ?case unfolding boxes using b ih by (auto simp add: nth_Cons split: nat.splits)
qed

subsection \<open>When the tabular renderer throws\<close>

lemma rangeCell_throws:
  "isl (rangeCell rt c) =
     (isTemporalDataType (data_type c) \<and> isTimeOnly (data_type c) \<and>
      min_text c \<noteq> Null \<and> max_text c \<noteq> Null \<and>
      (min_text c = Undefined \<or> max_text c = Undefined))"
proof (cases "isTemporalDataType (data_type c) \<and> min_text c \<noteq> Null \<and> max_text c \<noteq> Null")
  case False
  then show ?thesis by (auto simp add: rangeCell_def)
next
  case True
  then have n: "\<not> isNumericDataType (data_type c)" using temporal_not_numeric by blast
  have r: "rangeCell rt c =
      (case formatTemporalRange rt (min_text c) (max_text c) (data_type c) of
         Inl e \<Rightarrow> Inl e
       | Inr fr \<Rightarrow> Inr (case fr of None \<Rightarrow> [] | Some s \<Rightarrow> s))"
    using True n by (simp add: rangeCell_def)
  have i: "isl (rangeCell rt c) =
      isl (formatTemporalRange rt (min_text c) (max_text c) (data_type c))"
    by (cases "formatTemporalRange rt (min_text c) (max_text c) (data_type c)") (simp_all add: r)
  show ?thesis
  proof (cases "isTimeOnly (data_type c)")
    case False
    then have "\<not> isl (formatTemporalRange rt (min_text c) (max_text c) (data_type c))"
      by (simp add: formatTemporalRange_def split: option.splits)
    then show ?thesis using False by (simp add: i)
  next
    case t: True
    have "isl (formatTemporalRange rt (min_text c) (max_text c) (data_type c)) =
        (min_text c = Undefined \<or> max_text c = Undefined)"
      using True t
      by (cases "min_text c"; cases "max_text c")
         (simp_all add: formatTemporalRange_def Let_def split: option.splits)
    then show ?thesis using True t by (simp add: i)
  qed
qed

lemma columnRow_throws: "isl (columnRow rt c) = isl (rangeCell rt c)"
  by (simp add: columnRow_def Let_def split: sum.splits)

lemma columnRows_throws: "isl (columnRows rt cols) = (\<exists>c\<in>set cols. isl (rangeCell rt c))"
proof (induction cols)
  case Nil
  show ?case by simp
next
  case (Cons c cs)
  show ?case using Cons.IH columnRow_throws [of rt c]
    by (cases "columnRow rt c"; cases "columnRows rt cs") simp_all
qed

lemma rowLine_throws: "isl (rowLine nw tw rw r) = (\<forall>lbl. r_typeLabel r \<noteq> JString lbl)"
  by (cases "r_typeLabel r") (simp_all add: rowLine_def)

lemma rowLines_throws:
  "isl (rowLines nw tw rw rows) = (\<exists>r\<in>set rows. \<forall>lbl. r_typeLabel r \<noteq> JString lbl)"
proof (induction rows)
  case Nil
  show ?case by simp
next
  case (Cons r rs)
  show ?case using Cons.IH rowLine_throws [of nw tw rw r]
    by (cases "rowLine nw tw rw r"; cases "rowLines nw tw rw rs") simp_all
qed

lemma columnRows_fields:
  "columnRows rt cols = Inr rows \<Longrightarrow>
     map r_name rows = map column_name cols \<and>
     map r_typeLabel rows = map (\<lambda>c. humanDataType (data_type c)) cols \<and>
     map (\<lambda>r. Inr (r_range r)) rows = map (rangeCell rt) cols \<and>
     map r_values rows = map valuesCell cols"
proof (induction cols arbitrary: rows)
  case Nil
  then show ?case by simp
next
  case (Cons c cs)
  from Cons.prems obtain r rs where r: "columnRow rt c = Inr r"
    and rs: "columnRows rt cs = Inr rs" and rows: "rows = r # rs"
    by (auto split: sum.splits)
  show ?case unfolding rows using Cons.IH [OF rs] columnRow_Inr [OF r] by simp
qed

lemma label_not_string:
  "(\<forall>lbl. humanDataType dt \<noteq> JString lbl) =
     (toLowerCase dt = ''constructor'' \<or> toLowerCase dt = ''__proto__'')"
proof
  assume a: "\<forall>lbl. humanDataType dt \<noteq> JString lbl"
  show "toLowerCase dt = ''constructor'' \<or> toLowerCase dt = ''__proto__''"
  proof (rule ccontr)
    assume "\<not> (toLowerCase dt = ''constructor'' \<or> toLowerCase dt = ''__proto__'')"
    then have "\<exists>s. humanDataType dt = JString s \<and> length s \<le> 8"
      by (intro humanDataType_string) simp_all
    then show False using a by blast
  qed
next
  assume "toLowerCase dt = ''constructor'' \<or> toLowerCase dt = ''__proto__''"
  then show "\<forall>lbl. humanDataType dt \<noteq> JString lbl"
  proof
    assume t: "toLowerCase dt = ''constructor''"
    have g: "getProperty humanDataTypeMap ''constructor'' = Some (JFunction 1)" by code_simp
    have "humanDataType dt = JFunction 1" by (simp add: humanDataType_def t g)
    then show ?thesis by simp
  next
    assume t: "toLowerCase dt = ''__proto__''"
    have g: "getProperty humanDataTypeMap ''__proto__'' = Some JObjectPrototype" by code_simp
    have "humanDataType dt = JObjectPrototype" by (simp add: humanDataType_def t g)
    then show ?thesis by simp
  qed
qed

lemma shownInTable_iff:
  "shownInTable c =
     (\<not> isl (rangeCell rt c) \<and> (\<exists>lbl. humanDataType (data_type c) = JString lbl))"
  using label_not_string [of "data_type c"]
  unfolding shownInTable_def rangeCell_throws by blast

lemma columnsBox_throws:
  "isl (columnsBox rt cols) = (\<exists>c\<in>set cols. \<not> shownInTable c)"
proof (cases "columnRows rt cols")
  case (Inl e)
  then have "isl (columnRows rt cols)" by simp
  then obtain c where c: "c \<in> set cols" "isl (rangeCell rt c)"
    using columnRows_throws by blast
  then have "\<not> shownInTable c" using shownInTable_iff [of c rt] by simp
  then show ?thesis using Inl c(1) by (auto simp add: columnsBox_def)
next
  case (Inr rows)
  then have "\<not> isl (columnRows rt cols)" by simp
  then have ok: "\<forall>c\<in>set cols. \<not> isl (rangeCell rt c)" using columnRows_throws by blast
  have lab: "map r_typeLabel rows = map (\<lambda>c. humanDataType (data_type c)) cols"
    using columnRows_fields [OF Inr] by blast
  have "isl (columnsBox rt cols) =
      isl (rowLines (maxOf (map (\<lambda>r. length (r_name r)) rows))
             (maxOf (map (\<lambda>r. labelLength (r_typeLabel r)) rows))
             (maxOf (5 # map (\<lambda>r. length (r_range r)) rows)) rows)"
    by (simp add: columnsBox_def Inr Let_def split: sum.splits)
  also have "\<dots> = (\<exists>l\<in>set (map r_typeLabel rows). \<forall>lbl. l \<noteq> JString lbl)"
    by (simp add: rowLines_throws)
  also have "\<dots> = (\<exists>c\<in>set cols. \<forall>lbl. humanDataType (data_type c) \<noteq> JString lbl)"
    unfolding lab by simp
  also have "\<dots> = (\<exists>c\<in>set cols. \<not> shownInTable c)"
    using ok shownInTable_iff [of _ rt] by blast
  finally show ?thesis .
qed

lemma tableBox_throws:
  "isl (tableBox rt md v) = (\<exists>c\<in>set (columns v). \<not> shownInTable c)"
proof (cases "columns v = []")
  case True
  then show ?thesis by (simp add: tableBox_def)
next
  case False
  then have "isl (tableBox rt md v) = isl (columnsBox rt (columns v))"
    by (simp add: tableBox_def Let_def split: sum.splits)
  then show ?thesis by (simp add: columnsBox_throws)
qed

lemma tableBoxes_throws:
  "isl (tableBoxes rt md views) = (\<exists>v\<in>set views. \<exists>c\<in>set (columns v). \<not> shownInTable c)"
proof (induction views)
  case Nil
  show ?case by simp
next
  case (Cons v vs)
  show ?case using Cons.IH tableBox_throws [of rt md v]
    by (cases "tableBox rt md v"; cases "tableBoxes rt md vs") simp_all
qed

lemma renderTables_throws:
  "isl (renderTables rt views md) = (\<exists>v\<in>set views. \<exists>c\<in>set (columns v). \<not> shownInTable c)"
  using tableBoxes_throws [of rt md views]
  by (cases "tableBoxes rt md views") (simp_all add: renderTables_def)

subsection \<open>The lines of the tabular output\<close>

lemma columnRows_widths:
  assumes "columnRows rt cols = Inr rows"
  shows "maxOf (map (\<lambda>r. length (r_name r)) rows) = nameW cols"
    and "maxOf (map (\<lambda>r. labelLength (r_typeLabel r)) rows) = typeW cols"
    and "maxOf (5 # map (\<lambda>r. length (r_range r)) rows) = rangeW rt cols"
proof -
  note F = columnRows_fields [OF assms]
  have e1: "map r_name rows = map column_name cols" using F by blast
  have e2: "map r_typeLabel rows = map (\<lambda>c. humanDataType (data_type c)) cols" using F by blast
  have e3: "map (\<lambda>r. Inr (r_range r)) rows = map (rangeCell rt) cols" using F by blast
  have "map length (map r_name rows) = map length (map column_name cols)"
    by (simp only: e1)
  then have n: "map (\<lambda>r. length (r_name r)) rows = map (\<lambda>c. length (column_name c)) cols"
    by (simp add: comp_def)
  have "map labelLength (map r_typeLabel rows) =
      map labelLength (map (\<lambda>c. humanDataType (data_type c)) cols)"
    by (simp only: e2)
  then have t: "map (\<lambda>r. labelLength (r_typeLabel r)) rows =
      map (\<lambda>c. labelLength (humanDataType (data_type c))) cols"
    by (simp add: comp_def)
  have "map (\<lambda>x. case x of Inl e \<Rightarrow> 0 | Inr rng \<Rightarrow> length rng)
          (map (\<lambda>r. Inr (r_range r) :: js_error + string) rows) =
        map (\<lambda>x. case x of Inl e \<Rightarrow> 0 | Inr rng \<Rightarrow> length rng) (map (rangeCell rt) cols)"
    by (simp only: e3)
  then have r: "map (\<lambda>r. length (r_range r)) rows =
      map (\<lambda>c. case rangeCell rt c of Inl e \<Rightarrow> 0 | Inr rng \<Rightarrow> length rng) cols"
    by (simp add: comp_def)
  show "maxOf (map (\<lambda>r. length (r_name r)) rows) = nameW cols" by (simp only: n nameW_def)
  show "maxOf (map (\<lambda>r. labelLength (r_typeLabel r)) rows) = typeW cols"
    by (simp only: t typeW_def)
  show "maxOf (5 # map (\<lambda>r. length (r_range r)) rows) = rangeW rt cols"
    by (simp only: r rangeW_def)
qed

lemma columnsBox_rows:
  assumes "columnsBox rt cols = Inr b"
  shows "length (linesOf b) = Suc (length cols)"
    and "hd (linesOf b) =
           padEnd (nameW cols) ''name'' @ ''  '' @ padEnd (typeW cols) ''type'' @ ''  '' @
           padEnd (rangeW rt cols) ''range'' @ ''  '' @ ''values''"
    and "i < length cols \<Longrightarrow>
           \<exists>lbl rng.
             humanDataType (data_type (cols ! i)) = JString lbl \<and>
             rangeCell rt (cols ! i) = Inr rng \<and>
             linesOf b ! Suc i =
               padEnd (nameW cols) (column_name (cols ! i)) @ ''  '' @
               padEnd (typeW cols) lbl @ ''  '' @ padEnd (rangeW rt cols) rng @ ''  '' @
               valuesCell (cols ! i)"
proof -
  from assms obtain rows where rows: "columnRows rt cols = Inr rows"
    by (auto simp add: columnsBox_def split: sum.splits)
  note W = columnRows_widths [OF rows]
  from assms rows obtain ls where ls: "rowLines (nameW cols) (typeW cols) (rangeW rt cols) rows = Inr ls"
    and b: "b = Box [(''flexDirection'', ''column''), (''marginTop'', ''1'')]
                  (columnsHeading (nameW cols) (typeW cols) (rangeW rt cols) # ls)"
    by (auto simp add: columnsBox_def Let_def W split: sum.splits)
  have R: "length rows = length cols" "\<forall>i<length cols. columnRow rt (cols ! i) = Inr (rows ! i)"
    using columnRows_Inr [OF rows] by blast+
  have L: "length ls = length rows"
    "\<forall>i<length rows. rowLine (nameW cols) (typeW cols) (rangeW rt cols) (rows ! i) = Inr (ls ! i)"
    using rowLines_Inr [OF ls] by blast+
  have single: "\<forall>j<length ls. \<exists>s. linesOf (ls ! j) = [s]"
  proof (intro allI impI)
    fix j assume "j < length ls"
    then have "rowLine (nameW cols) (typeW cols) (rangeW rt cols) (rows ! j) = Inr (ls ! j)"
      using L by simp
    then show "\<exists>s. linesOf (ls ! j) = [s]" using rowLine_Inr by blast
  qed
  have C: "length (concat (map linesOf ls)) = length ls"
    "\<forall>j<length ls. linesOf (ls ! j) = [concat (map linesOf ls) ! j]"
    using linesOf_rowLines [OF single] by blast+
  have lb: "linesOf b =
      textOf (columnsHeading (nameW cols) (typeW cols) (rangeW rt cols)) # concat (map linesOf ls)"
    by (simp add: b columnsHeading_def)
  show "length (linesOf b) = Suc (length cols)" using lb C(1) L(1) R(1) by simp
  show "hd (linesOf b) =
           padEnd (nameW cols) ''name'' @ ''  '' @ padEnd (typeW cols) ''type'' @ ''  '' @
           padEnd (rangeW rt cols) ''range'' @ ''  '' @ ''values''"
    by (simp add: lb columnsHeading_def)
  show "\<exists>lbl rng.
             humanDataType (data_type (cols ! i)) = JString lbl \<and>
             rangeCell rt (cols ! i) = Inr rng \<and>
             linesOf b ! Suc i =
               padEnd (nameW cols) (column_name (cols ! i)) @ ''  '' @
               padEnd (typeW cols) lbl @ ''  '' @ padEnd (rangeW rt cols) rng @ ''  '' @
               valuesCell (cols ! i)"
    if i: "i < length cols"
  proof -
    have i': "i < length rows" "i < length ls" using i R(1) L(1) by simp_all
    have cr: "columnRow rt (cols ! i) = Inr (rows ! i)" using R(2) i by simp
    have rl: "rowLine (nameW cols) (typeW cols) (rangeW rt cols) (rows ! i) = Inr (ls ! i)"
      using L(2) i'(1) by simp
    obtain lbl where lbl: "r_typeLabel (rows ! i) = JString lbl"
      and line: "linesOf (ls ! i) =
          [padEnd (nameW cols) (r_name (rows ! i)) @ ''  '' @ padEnd (typeW cols) lbl @ ''  '' @
           padEnd (rangeW rt cols) (r_range (rows ! i)) @ ''  '' @ r_values (rows ! i)]"
      using rowLine_Inr [OF rl] by blast
    have nth: "linesOf b ! Suc i = concat (map linesOf ls) ! i" using lb by simp
    have "linesOf (ls ! i) = [concat (map linesOf ls) ! i]" using C(2) i'(2) by simp
    then have eq: "linesOf b ! Suc i =
        padEnd (nameW cols) (r_name (rows ! i)) @ ''  '' @ padEnd (typeW cols) lbl @ ''  '' @
        padEnd (rangeW rt cols) (r_range (rows ! i)) @ ''  '' @ r_values (rows ! i)"
      using line nth by simp
    have h: "humanDataType (data_type (cols ! i)) = JString lbl"
      using columnRow_Inr [OF cr] lbl by simp
    have g: "rangeCell rt (cols ! i) = Inr (r_range (rows ! i))"
      using columnRow_Inr [OF cr] by simp
    have "linesOf b ! Suc i =
            padEnd (nameW cols) (column_name (cols ! i)) @ ''  '' @
            padEnd (typeW cols) lbl @ ''  '' @ padEnd (rangeW rt cols) (r_range (rows ! i)) @
            ''  '' @ valuesCell (cols ! i)"
      using eq columnRow_Inr [OF cr] by simp
    then show ?thesis using h g by blast
  qed
qed

lemma tableBox_lines:
  assumes "tableBox rt md v = Inr bx"
  shows "hd (linesOf bx) = textOf (tableHeading md v)"
    and "columns v = [] \<Longrightarrow> linesOf bx = [textOf (tableHeading md v)]"
    and "columns v \<noteq> [] \<Longrightarrow>
           \<exists>b. columnsBox rt (columns v) = Inr b \<and>
                linesOf bx = textOf (tableHeading md v) # linesOf b"
  using assms
  by (auto simp add: tableBox_def Let_def linesOf_tableHeading split: if_splits sum.splits)

lemma printColumns_lines:
  assumes "i < length cols"
  shows "length (printColumns cols) = Suc (length cols)"
    and "hd (printColumns cols) = ''  columns:''"
    and "printColumns cols ! Suc i =
           ''  '' @ padEnd (nameW cols) (column_name (cols ! i)) @ ''  '' @ data_type (cols ! i)"
proof -
  have ne: "cols \<noteq> []" using assms by auto
  show "length (printColumns cols) = Suc (length cols)"
    using ne by (simp add: printColumns_def Let_def)
  show "hd (printColumns cols) = ''  columns:''"
    using ne by (simp add: printColumns_def Let_def)
  show "printColumns cols ! Suc i =
           ''  '' @ padEnd (nameW cols) (column_name (cols ! i)) @ ''  '' @ data_type (cols ! i)"
    using ne assms by (simp add: printColumns_def Let_def nameW_def)
qed

lemma tableBox_columns:
  assumes "tableBox rt md v = Inr bx"
  shows "hd (linesOf bx) = textOf (tableHeading md v)"
    and "length (linesOf bx) = (if columns v = [] then 1 else length (columns v) + 2)"
    and "columns v \<noteq> [] \<Longrightarrow>
           linesOf bx ! 1 =
             padEnd (nameW (columns v)) ''name'' @ ''  '' @ padEnd (typeW (columns v)) ''type'' @
             ''  '' @ padEnd (rangeW rt (columns v)) ''range'' @ ''  '' @ ''values''"
    and "j < length (columns v) \<Longrightarrow>
           \<exists>lbl rng.
             humanDataType (data_type (columns v ! j)) = JString lbl \<and>
             rangeCell rt (columns v ! j) = Inr rng \<and>
             linesOf bx ! Suc (Suc j) =
               padEnd (nameW (columns v)) (column_name (columns v ! j)) @ ''  '' @
               padEnd (typeW (columns v)) lbl @ ''  '' @ padEnd (rangeW rt (columns v)) rng @
               ''  '' @ valuesCell (columns v ! j)"
proof -
  show "hd (linesOf bx) = textOf (tableHeading md v)" using tableBox_lines(1) [OF assms] .
  show "length (linesOf bx) = (if columns v = [] then 1 else length (columns v) + 2)"
  proof (cases "columns v = []")
    case True
    then show ?thesis using tableBox_lines(2) [OF assms] by simp
  next
    case False
    then obtain b where b: "columnsBox rt (columns v) = Inr b"
      "linesOf bx = textOf (tableHeading md v) # linesOf b"
      using tableBox_lines(3) [OF assms] by blast
    show ?thesis using False b(2) columnsBox_rows(1) [OF b(1)] by simp
  qed
  show "linesOf bx ! 1 =
             padEnd (nameW (columns v)) ''name'' @ ''  '' @ padEnd (typeW (columns v)) ''type'' @
             ''  '' @ padEnd (rangeW rt (columns v)) ''range'' @ ''  '' @ ''values''"
    if ne: "columns v \<noteq> []"
  proof -
    obtain b where b: "columnsBox rt (columns v) = Inr b"
      "linesOf bx = textOf (tableHeading md v) # linesOf b"
      using tableBox_lines(3) [OF assms ne] by blast
    have "linesOf b \<noteq> []" using columnsBox_rows(1) [OF b(1)] by auto
    then have "linesOf bx ! 1 = hd (linesOf b)" using b(2) by (simp add: hd_conv_nth)
    then show ?thesis using columnsBox_rows(2) [OF b(1)] by simp
  qed
  show "\<exists>lbl rng.
             humanDataType (data_type (columns v ! j)) = JString lbl \<and>
             rangeCell rt (columns v ! j) = Inr rng \<and>
             linesOf bx ! Suc (Suc j) =
               padEnd (nameW (columns v)) (column_name (columns v ! j)) @ ''  '' @
               padEnd (typeW (columns v)) lbl @ ''  '' @ padEnd (rangeW rt (columns v)) rng @
               ''  '' @ valuesCell (columns v ! j)"
    if j: "j < length (columns v)"
  proof -
    have ne: "columns v \<noteq> []" using j by auto
    obtain b where b: "columnsBox rt (columns v) = Inr b"
      "linesOf bx = textOf (tableHeading md v) # linesOf b"
      using tableBox_lines(3) [OF assms ne] by blast
    have "linesOf bx ! Suc (Suc j) = linesOf b ! Suc j" using b(2) by simp
    then show ?thesis using columnsBox_rows(3) [OF b(1) j] by simp
  qed
qed

text \<open>
  Claim C1, as stated, fails. For a table with an integer column with a range and a
  boolean column with counts, the plain-text renderer prints the name and the raw data
  type of each column, the tabular renderer the name, the short type label, the range
  and the values.
\<close>

theorem renderers_differ_counterexample:
  "\<not> sameContent hostUTC [sampleView] Estimated \<and>
   tl (tl (renderTables_ts [sampleView] Estimated)) =
     [''  columns:'', ''  id  integer'', ''  ok  boolean''] \<and>
   map_sum id (\<lambda>tree. tl (tl (linesOf tree))) (renderTables hostUTC [sampleView] Estimated) =
     Inr [''name  type  range  values'', ''id  int   1-5    '',
          ''ok  bool         Yes 3 (75.0%) | No 1 (25.0%)'']"
  by code_simp

text \<open>
  Claim C1, amended. The plain-text renderer prints, for all views and both modes, the
  header line, then for every table a line with the text of the tabular heading of the
  table (schema, name, row-count label, column count) between a bullet and line breaks
  and, when the table has columns, a label line and for every column its name padded
  to the longest name of the table, followed by the raw data type and nothing else.
  For the views all of whose columns the tabular renderer shows, it builds a tree: its
  first line is the same header line; the box of every table starts with the same
  heading and, when the table has columns, goes on with a row of column titles and for
  every column a line of the same padded name followed by the short type label and the
  range, each padded to the width of its column, and the values. On any other view
  building the tree throws (\<open>renderTables_throws\<close> above).
\<close>

theorem renderers_share_headings_and_names:
  "renderTables_ts views md =
     header md #
     concat (map (\<lambda>v. (newline @ ''- '' @ textOf (tableHeading md v) @ newline) #
                       printColumns (columns v)) views) \<and>
   textOf (tableHeading md v) =
     table_schema v @ ''.'' @ table_name v @ '' '' @ emDash @ '' '' @ countLabelFor md v @
     '' rows, '' @ intToString (column_count v) @ '' cols'' \<and>
   printColumns [] = [] \<and>
   (i < length cols \<longrightarrow>
      length (printColumns cols) = Suc (length cols) \<and>
      hd (printColumns cols) = ''  columns:'' \<and>
      printColumns cols ! Suc i =
        ''  '' @ padEnd (nameW cols) (column_name (cols ! i)) @ ''  '' @ data_type (cols ! i)) \<and>
   ((\<forall>v\<in>set views. \<forall>c\<in>set (columns v). shownInTable c) \<longrightarrow>
      (\<exists>tree boxes.
         renderTables rt views md = Inr tree \<and>
         length boxes = length views \<and>
         linesOf tree = header md # concat (map linesOf boxes) \<and>
         (\<forall>k<length views.
            hd (linesOf (boxes ! k)) = textOf (tableHeading md (views ! k)) \<and>
            length (linesOf (boxes ! k)) =
              (if columns (views ! k) = [] then 1 else length (columns (views ! k)) + 2) \<and>
            (columns (views ! k) \<noteq> [] \<longrightarrow>
               linesOf (boxes ! k) ! 1 =
                 padEnd (nameW (columns (views ! k))) ''name'' @ ''  '' @
                 padEnd (typeW (columns (views ! k))) ''type'' @ ''  '' @
                 padEnd (rangeW rt (columns (views ! k))) ''range'' @ ''  '' @ ''values'') \<and>
            (\<forall>j<length (columns (views ! k)).
               \<exists>lbl rng.
                 humanDataType (data_type (columns (views ! k) ! j)) = JString lbl \<and>
                 rangeCell rt (columns (views ! k) ! j) = Inr rng \<and>
                 linesOf (boxes ! k) ! Suc (Suc j) =
                   padEnd (nameW (columns (views ! k))) (column_name (columns (views ! k) ! j)) @
                   ''  '' @ padEnd (typeW (columns (views ! k))) lbl @
                   ''  '' @ padEnd (rangeW rt (columns (views ! k))) rng @
                   ''  '' @ valuesCell (columns (views ! k) ! j)))))"
proof -
  have 1: "renderTables_ts views md =
     header md #
     concat (map (\<lambda>v. (newline @ ''- '' @ textOf (tableHeading md v) @ newline) #
                       printColumns (columns v)) views)"
    by (simp add: renderTables_ts_def tableLine_heading)
  have 2: "printColumns [] = []" by (simp add: printColumns_def)
  have 3: "i < length cols \<longrightarrow>
      length (printColumns cols) = Suc (length cols) \<and>
      hd (printColumns cols) = ''  columns:'' \<and>
      printColumns cols ! Suc i =
        ''  '' @ padEnd (nameW cols) (column_name (cols ! i)) @ ''  '' @ data_type (cols ! i)"
    using printColumns_lines [of i cols] by blast
  have 4: "(\<forall>v\<in>set views. \<forall>c\<in>set (columns v). shownInTable c) \<longrightarrow>
      (\<exists>tree boxes.
         renderTables rt views md = Inr tree \<and>
         length boxes = length views \<and>
         linesOf tree = header md # concat (map linesOf boxes) \<and>
         (\<forall>k<length views.
            hd (linesOf (boxes ! k)) = textOf (tableHeading md (views ! k)) \<and>
            length (linesOf (boxes ! k)) =
              (if columns (views ! k) = [] then 1 else length (columns (views ! k)) + 2) \<and>
            (columns (views ! k) \<noteq> [] \<longrightarrow>
               linesOf (boxes ! k) ! 1 =
                 padEnd (nameW (columns (views ! k))) ''name'' @ ''  '' @
                 padEnd (typeW (columns (views ! k))) ''type'' @ ''  '' @
                 padEnd (rangeW rt (columns (views ! k))) ''range'' @ ''  '' @ ''values'') \<and>
            (\<forall>j<length (columns (views ! k)).
               \<exists>lbl rng.
                 humanDataType (data_type (columns (views ! k) ! j)) = JString lbl \<and>
                 rangeCell rt (columns (views ! k) ! j) = Inr rng \<and>
                 linesOf (boxes ! k) ! Suc (Suc j) =
                   padEnd (nameW (columns (views ! k))) (column_name (columns (views ! k) ! j)) @
                   ''  '' @ padEnd (typeW (columns (views ! k))) lbl @
                   ''  '' @ padEnd (rangeW rt (columns (views ! k))) rng @
                   ''  '' @ valuesCell (columns (views ! k) ! j))))"
  proof
    assume ok: "\<forall>v\<in>set views. \<forall>c\<in>set (columns v). shownInTable c"
    then have "\<not> isl (renderTables rt views md)" by (simp add: renderTables_throws)
    then obtain tree where t: "renderTables rt views md = Inr tree"
      by (cases "renderTables rt views md") simp_all
    then obtain boxes where bx: "tableBoxes rt md views = Inr boxes"
      and tree: "tree = Box [(''flexDirection'', ''column''), (''paddingBottom'', ''1'')]
                 (Text [(''color'', ''cyan''), (''bold'', ''true'')] [Leaf (header md)] # boxes)"
      by (auto simp add: renderTables_def split: sum.splits)
    have B: "length boxes = length views"
      "\<forall>k<length views. tableBox rt md (views ! k) = Inr (boxes ! k)"
      using tableBoxes_Inr [OF bx] by blast+
    have l: "linesOf tree = header md # concat (map linesOf boxes)"
      by (simp add: tree)
    have each: "hd (linesOf (boxes ! k)) = textOf (tableHeading md (views ! k)) \<and>
            length (linesOf (boxes ! k)) =
              (if columns (views ! k) = [] then 1 else length (columns (views ! k)) + 2) \<and>
            (columns (views ! k) \<noteq> [] \<longrightarrow>
               linesOf (boxes ! k) ! 1 =
                 padEnd (nameW (columns (views ! k))) ''name'' @ ''  '' @
                 padEnd (typeW (columns (views ! k))) ''type'' @ ''  '' @
                 padEnd (rangeW rt (columns (views ! k))) ''range'' @ ''  '' @ ''values'') \<and>
            (\<forall>j<length (columns (views ! k)).
               \<exists>lbl rng.
                 humanDataType (data_type (columns (views ! k) ! j)) = JString lbl \<and>
                 rangeCell rt (columns (views ! k) ! j) = Inr rng \<and>
                 linesOf (boxes ! k) ! Suc (Suc j) =
                   padEnd (nameW (columns (views ! k))) (column_name (columns (views ! k) ! j)) @
                   ''  '' @ padEnd (typeW (columns (views ! k))) lbl @
                   ''  '' @ padEnd (rangeW rt (columns (views ! k))) rng @
                   ''  '' @ valuesCell (columns (views ! k) ! j))"
      if k: "k < length views" for k
    proof -
      have tb: "tableBox rt md (views ! k) = Inr (boxes ! k)" using B(2) k by simp
      show ?thesis
        using tableBox_columns(1) [OF tb] tableBox_columns(2) [OF tb]
          tableBox_columns(3) [OF tb] tableBox_columns(4) [OF tb]
        by blast
    qed
    show "\<exists>tree boxes.
         renderTables rt views md = Inr tree \<and>
         length boxes = length views \<and>
         linesOf tree = header md # concat (map linesOf boxes) \<and>
         (\<forall>k<length views.
            hd (linesOf (boxes ! k)) = textOf (tableHeading md (views ! k)) \<and>
            length (linesOf (boxes ! k)) =
              (if columns (views ! k) = [] then 1 else length (columns (views ! k)) + 2) \<and>
            (columns (views ! k) \<noteq> [] \<longrightarrow>
               linesOf (boxes ! k) ! 1 =
                 padEnd (nameW (columns (views ! k))) ''name'' @ ''  '' @
                 padEnd (typeW (columns (views ! k))) ''type'' @ ''  '' @
                 padEnd (rangeW rt (columns (views ! k))) ''range'' @ ''  '' @ ''values'') \<and>
            (\<forall>j<length (columns (views ! k)).
               \<exists>lbl rng.
                 humanDataType (data_type (columns (views ! k) ! j)) = JString lbl \<and>
                 rangeCell rt (columns (views ! k) ! j) = Inr rng \<and>
                 linesOf (boxes ! k) ! Suc (Suc j) =
                   padEnd (nameW (columns (views ! k))) (column_name (columns (views ! k) ! j)) @
                   ''  '' @ padEnd (typeW (columns (views ! k))) lbl @
                   ''  '' @ padEnd (rangeW rt (columns (views ! k))) rng @
                   ''  '' @ valuesCell (columns (views ! k) ! j)))"
      using t B(1) l each by blast
  qed
  from 1 textOf_tableHeading [of md v] 2 3 4 show ?thesis by blast
qed

text \<open>
  The sample view in estimated mode: the tabular renderer shows both columns, the tree
  is built, and the line of the column \<open>id\<close> starts with its name in both outputs.
\<close>

theorem renderers_share_headings_and_names_witness:
  "0 < length (columns sampleView) \<and>
   list_all shownInTable (columns sampleView) \<and>
   renderTables_ts [sampleView] Estimated =
     [header Estimated,
      newline @ ''- '' @ textOf (tableHeading Estimated sampleView) @ newline,
      ''  columns:'', ''  id  integer'', ''  ok  boolean''] \<and>
   printColumns (columns sampleView) ! Suc 0 = ''  id  integer'' \<and>
   (\<exists>tree boxes.
      renderTables hostUTC [sampleView] Estimated = Inr tree \<and>
      linesOf tree = header Estimated # concat (map linesOf boxes) \<and>
      hd (linesOf (boxes ! 0)) = textOf (tableHeading Estimated sampleView) \<and>
      length (linesOf (boxes ! 0)) = 4 \<and>
      linesOf (boxes ! 0) ! 1 = ''name  type  range  values'' \<and>
      linesOf (boxes ! 0) ! Suc (Suc 0) = ''id  int   1-5    '')"
proof -
  let ?cols = "columns sampleView"
  note T = renderers_share_headings_and_names
    [where views = "[sampleView]" and md = Estimated and v = sampleView and i = 0
       and cols = "columns sampleView" and rt = hostUTC]
  have len: "0 < length ?cols" by (simp add: sampleView_def)
  have ne: "?cols \<noteq> []" using len by auto
  have all: "list_all shownInTable ?cols" by code_simp
  then have ok: "\<forall>v\<in>set [sampleView]. \<forall>c\<in>set (columns v). shownInTable c"
    by (simp add: list_all_iff)
  have pc: "printColumns ?cols = [''  columns:'', ''  id  integer'', ''  ok  boolean'']"
    by code_simp
  have ts: "renderTables_ts [sampleView] Estimated =
     [header Estimated,
      newline @ ''- '' @ textOf (tableHeading Estimated sampleView) @ newline,
      ''  columns:'', ''  id  integer'', ''  ok  boolean'']"
    using T pc by simp
  have p: "printColumns ?cols ! Suc 0 = ''  id  integer''"
  proof -
    have "printColumns ?cols ! Suc 0 =
        ''  '' @ padEnd (nameW ?cols) (column_name (?cols ! 0)) @ ''  '' @ data_type (?cols ! 0)"
      using T len by blast
    moreover have "''  '' @ padEnd (nameW ?cols) (column_name (?cols ! 0)) @ ''  '' @
        data_type (?cols ! 0) = ''  id  integer''"
      by code_simp
    ultimately show ?thesis by simp
  qed
  from T ok obtain tree boxes where t: "renderTables hostUTC [sampleView] Estimated = Inr tree"
    and l: "linesOf tree = header Estimated # concat (map linesOf boxes)"
    and each: "\<forall>k<length [sampleView].
            hd (linesOf (boxes ! k)) = textOf (tableHeading Estimated ([sampleView] ! k)) \<and>
            length (linesOf (boxes ! k)) =
              (if columns ([sampleView] ! k) = [] then 1 else length (columns ([sampleView] ! k)) + 2) \<and>
            (columns ([sampleView] ! k) \<noteq> [] \<longrightarrow>
               linesOf (boxes ! k) ! 1 =
                 padEnd (nameW (columns ([sampleView] ! k))) ''name'' @ ''  '' @
                 padEnd (typeW (columns ([sampleView] ! k))) ''type'' @ ''  '' @
                 padEnd (rangeW hostUTC (columns ([sampleView] ! k))) ''range'' @ ''  '' @ ''values'') \<and>
            (\<forall>j<length (columns ([sampleView] ! k)).
               \<exists>lbl rng.
                 humanDataType (data_type (columns ([sampleView] ! k) ! j)) = JString lbl \<and>
                 rangeCell hostUTC (columns ([sampleView] ! k) ! j) = Inr rng \<and>
                 linesOf (boxes ! k) ! Suc (Suc j) =
                   padEnd (nameW (columns ([sampleView] ! k))) (column_name (columns ([sampleView] ! k) ! j)) @
                   ''  '' @ padEnd (typeW (columns ([sampleView] ! k))) lbl @
                   ''  '' @ padEnd (rangeW hostUTC (columns ([sampleView] ! k))) rng @
                   ''  '' @ valuesCell (columns ([sampleView] ! k) ! j))"
    by blast
  have e0: "hd (linesOf (boxes ! 0)) = textOf (tableHeading Estimated sampleView)"
    using each by simp
  have e1: "length (linesOf (boxes ! 0)) = 4"
  proof -
    have "length (linesOf (boxes ! 0)) = (if ?cols = [] then 1 else length ?cols + 2)"
      using each by simp
    moreover have "length ?cols = 2" by (simp add: sampleView_def)
    ultimately show ?thesis using ne by simp
  qed
  have e2: "linesOf (boxes ! 0) ! 1 = ''name  type  range  values''"
  proof -
    have "linesOf (boxes ! 0) ! 1 =
        padEnd (nameW ?cols) ''name'' @ ''  '' @ padEnd (typeW ?cols) ''type'' @ ''  '' @
        padEnd (rangeW hostUTC ?cols) ''range'' @ ''  '' @ ''values''"
      using each ne by simp
    moreover have "padEnd (nameW ?cols) ''name'' @ ''  '' @ padEnd (typeW ?cols) ''type'' @ ''  '' @
        padEnd (rangeW hostUTC ?cols) ''range'' @ ''  '' @ ''values'' = ''name  type  range  values''"
      by code_simp
    ultimately show ?thesis by simp
  qed
  have e3: "linesOf (boxes ! 0) ! Suc (Suc 0) = ''id  int   1-5    ''"
  proof -
    obtain lbl rng where h: "humanDataType (data_type (?cols ! 0)) = JString lbl"
      and g: "rangeCell hostUTC (?cols ! 0) = Inr rng"
      and line: "linesOf (boxes ! 0) ! Suc (Suc 0) =
          padEnd (nameW ?cols) (column_name (?cols ! 0)) @ ''  '' @ padEnd (typeW ?cols) lbl @
          ''  '' @ padEnd (rangeW hostUTC ?cols) rng @ ''  '' @ valuesCell (?cols ! 0)"
      using each len by auto
    have "humanDataType (data_type (?cols ! 0)) = JString ''int''" by code_simp
    then have lbl: "lbl = ''int''" using h by simp
    have "rangeCell hostUTC (?cols ! 0) = Inr ''1-5''" by code_simp
    then have rng: "rng = ''1-5''" using g by simp
    have "padEnd (nameW ?cols) (column_name (?cols ! 0)) @ ''  '' @ padEnd (typeW ?cols) ''int'' @
          ''  '' @ padEnd (rangeW hostUTC ?cols) ''1-5'' @ ''  '' @ valuesCell (?cols ! 0) =
          ''id  int   1-5    ''"
      by code_simp
    then show ?thesis using line lbl rng by simp
  qed
  have ex: "\<exists>tree boxes.
      renderTables hostUTC [sampleView] Estimated = Inr tree \<and>
      linesOf tree = header Estimated # concat (map linesOf boxes) \<and>
      hd (linesOf (boxes ! 0)) = textOf (tableHeading Estimated sampleView) \<and>
      length (linesOf (boxes ! 0)) = 4 \<and>
      linesOf (boxes ! 0) ! 1 = ''name  type  range  values'' \<and>
      linesOf (boxes ! 0) ! Suc (Suc 0) = ''id  int   1-5    ''"
    using t l e0 e1 e2 e3 by blast
  from len all ts p ex show ?thesis by blast
qed

end
